theory Spec2Isabelle
  imports Complex_Main
begin

text \<open>
  A model of the indentation engine \<^verbatim>\<open>formatText\<close> of the Razor Indent Formatter
  (\<^verbatim>\<open>src/formatter.ts\<close>), one definition for each function of the source, followed by
  the properties of the engine. Regular expressions are written out as the string functions
  they compute; where a pattern could backtrack, the text in front of the definition says why
  the match is unique. Counters, levels and widths are integers (\<^typ>\<open>int\<close>) with the
  \<^verbatim>\<open>Math.max(0, ...)\<close> of the source written out; indices of lines are natural numbers.
  Strings have no maximal length in the model: the \<^verbatim>\<open>RangeError\<close> that
  \<^verbatim>\<open>String.prototype.repeat\<close> raises for a count beyond the capacity of the engine is not
  modelled, and every statement is about the runs that return.
\<close>

section \<open>JavaScript strings\<close>

text \<open>
  A JavaScript string is a sequence of UTF-16 code units. The model writes a string as a
  \<^typ>\<open>string\<close>; a \<^typ>\<open>char\<close> stands for a code unit below 256. On these code units the
  regular-expression class \<^verbatim>\<open>\s\<close> and the methods \<^verbatim>\<open>trim\<close> and \<^verbatim>\<open>trimStart\<close> agree on what
  white space is: TAB, LF, VT, FF, CR, SPACE and NBSP. The class \<^verbatim>\<open>.\<close> excludes the line
  terminators LF and CR.
\<close>

definition isSpace :: "char \<Rightarrow> bool" where
  "isSpace c \<longleftrightarrow> c = CHR 0x09 \<or> c = CHR 0x0A \<or> c = CHR 0x0B \<or> c = CHR 0x0C
     \<or> c = CHR 0x0D \<or> c = CHR 0x20 \<or> c = CHR 0xA0"

definition isLineTerminator :: "char \<Rightarrow> bool" where
  "isLineTerminator c \<longleftrightarrow> c = CHR 0x0A \<or> c = CHR 0x0D"

definition isWordChar :: "char \<Rightarrow> bool" where
  "isWordChar c \<longleftrightarrow> (let n = (of_char c :: nat) in
     (48 \<le> n \<and> n \<le> 57) \<or> (65 \<le> n \<and> n \<le> 90) \<or> (97 \<le> n \<and> n \<le> 122) \<or> n = 95)"

text \<open>The class \<^verbatim>\<open>[a-zA-Z0-9:-]\<close> of tag names.\<close>

definition isNameChar :: "char \<Rightarrow> bool" where
  "isNameChar c \<longleftrightarrow> (let n = (of_char c :: nat) in
     (48 \<le> n \<and> n \<le> 57) \<or> (65 \<le> n \<and> n \<le> 90) \<or> (97 \<le> n \<and> n \<le> 122) \<or> n = 58 \<or> n = 45)"

definition lowerChar :: "char \<Rightarrow> char" where
  "lowerChar c = (let n = (of_char c :: nat) in
     if (65 \<le> n \<and> n \<le> 90) \<or> (192 \<le> n \<and> n \<le> 222 \<and> n \<noteq> 215) then char_of (n + 32) else c)"

definition toLowerCase :: "string \<Rightarrow> string" where
  "toLowerCase s = map lowerChar s"

definition trimStart :: "string \<Rightarrow> string" where
  "trimStart s = dropWhile isSpace s"

definition trimEnd :: "string \<Rightarrow> string" where
  "trimEnd s = rev (dropWhile isSpace (rev s))"

definition trim :: "string \<Rightarrow> string" where
  "trim s = trimEnd (trimStart s)"

fun startsWith :: "string \<Rightarrow> string \<Rightarrow> bool" where
  "startsWith s [] = True"
| "startsWith [] (p # ps) = False"
| "startsWith (c # cs) (p # ps) = (c = p \<and> startsWith cs ps)"

definition spaces :: "int \<Rightarrow> string" where
  "spaces n = replicate (nat n) (CHR '' '')"

fun join :: "string \<Rightarrow> string list \<Rightarrow> string" where
  "join sep [] = []"
| "join sep [x] = x"
| "join sep (x # y # ys) = x @ sep @ join sep (y # ys)"

text \<open>\<^verbatim>\<open>String(n)\<close> for an integer: its decimal digits, with a sign when negative.\<close>

definition digitChar :: "nat \<Rightarrow> char" where
  "digitChar d = char_of (48 + d)"

fun showNat :: "nat \<Rightarrow> string" where
  "showNat n = (if n < 10 then [digitChar n] else showNat (n div 10) @ [digitChar (n mod 10)])"

declare showNat.simps [simp del]

definition showInt :: "int \<Rightarrow> string" where
  "showInt i = (if i < 0 then CHR ''-'' # showNat (nat (- i)) else showNat (nat i))"

section \<open>Lines\<close>

record LineInfo =
  original :: string
  leading :: string
  rest :: string
  leadingWidth :: int

text \<open>\<^verbatim>\<open>input.split(/\r\n|\n/)\<close>: a separator is CR LF or a lone LF; a lone CR stays in its line.\<close>

fun consFirst :: "char \<Rightarrow> string list \<Rightarrow> string list" where
  "consFirst c [] = [[c]]"
| "consFirst c (l # ls) = (c # l) # ls"

fun splitRe :: "string \<Rightarrow> string list" where
  "splitRe [] = [[]]"
| "splitRe [c] = (if c = CHR 0x0A then [[], []] else [[c]])"
| "splitRe (c # d # cs) =
     (if c = CHR 0x0A then [] # splitRe (d # cs)
      else if c = CHR 0x0D \<and> d = CHR 0x0A then [] # splitRe cs
      else consFirst c (splitRe (d # cs)))"

fun includesStr :: "string \<Rightarrow> string \<Rightarrow> bool" where
  "includesStr [] p = (p = [])"
| "includesStr (c # cs) p = (startsWith (c # cs) p \<or> includesStr cs p)"

definition splitLines :: "string \<Rightarrow> string list \<times> string" where
  "splitLines input =
     (splitRe input, if includesStr input [CHR 0x0D, CHR 0x0A] then [CHR 0x0D, CHR 0x0A] else [CHR 0x0A])"

fun countIndentWidthFrom :: "int \<Rightarrow> string \<Rightarrow> int \<Rightarrow> int" where
  "countIndentWidthFrom width [] indentSize = width"
| "countIndentWidthFrom width (ch # chs) indentSize =
     (if ch = CHR 0x09 then countIndentWidthFrom (width + indentSize) chs indentSize
      else if ch = CHR '' '' then countIndentWidthFrom (width + 1) chs indentSize
      else countIndentWidthFrom (width + 1) chs indentSize)"

definition countIndentWidth :: "string \<Rightarrow> int \<Rightarrow> int" where
  "countIndentWidth lead indentSize = countIndentWidthFrom 0 lead indentSize"

text \<open>
  \<^verbatim>\<open>line.match(/^(\s*)(.*)$/)\<close>: the first group takes the whole leading white space, and
  the second group has to reach the end of the string without crossing a line terminator.
  Giving white space back to the second group cannot help, so the match fails exactly when
  a line terminator follows the leading white space; the source then keeps the whole line as
  \<^verbatim>\<open>rest\<close>, with an empty \<^verbatim>\<open>leading\<close> of width 0.
\<close>

definition matchIndent :: "string \<Rightarrow> (string \<times> string) option" where
  "matchIndent line =
     (if \<exists>c \<in> set (dropWhile isSpace line). isLineTerminator c then None
      else Some (takeWhile isSpace line, dropWhile isSpace line))"

definition analyzeLine :: "string \<Rightarrow> int \<Rightarrow> LineInfo" where
  "analyzeLine line indentSize =
     (case matchIndent line of
        None \<Rightarrow> \<lparr>original = line, leading = [], rest = line, leadingWidth = 0\<rparr>
      | Some (l, r) \<Rightarrow>
          \<lparr>original = line, leading = l, rest = r, leadingWidth = countIndentWidth l indentSize\<rparr>)"

section \<open>Lexical scanners\<close>

text \<open>
  \<^verbatim>\<open>stripHtmlComments\<close>: the source walks the line with \<^verbatim>\<open>indexOf\<close>; the model walks it one
  code unit at a time, which finds the same first occurrence of each marker. The result is
  the pair \<^verbatim>\<open>(cleaned, inComment)\<close>.
\<close>

function stripLoop :: "string \<Rightarrow> string \<Rightarrow> bool \<Rightarrow> string \<times> bool" where
  "stripLoop [] result inComment' = (result, inComment')"
| "stripLoop (c # cs) result inComment' =
     (if inComment' then
        (if startsWith (c # cs) ''-->'' then stripLoop (drop 3 (c # cs)) result False
         else stripLoop cs result True)
      else
        (if startsWith (c # cs) ''<!--'' then stripLoop (drop 4 (c # cs)) result True
         else stripLoop cs (result @ [c]) False))"
  by pat_completeness auto
termination
  by (relation "measure (\<lambda>(s, r, b). length s)") auto

definition stripHtmlComments :: "string \<Rightarrow> bool \<Rightarrow> string \<times> bool" where
  "stripHtmlComments line inComment' = stripLoop line [] inComment'"

record Tag =
  name :: string
  isClosing :: bool
  isSelfClosing :: bool

definition VOID_TAGS :: "string list" where
  "VOID_TAGS = [''area'', ''base'', ''br'', ''col'', ''embed'', ''hr'', ''img'', ''input'',
     ''link'', ''meta'', ''param'', ''source'', ''track'', ''wbr'']"

definition RAW_TAGS :: "string list" where
  "RAW_TAGS = [''script'', ''style'']"

text \<open>
  The matches of \<^verbatim>\<open>/<[^>]+>/g\<close> from left to right: at a \<^verbatim>\<open><\<close>, at least one code unit other
  than \<^verbatim>\<open>>\<close> and then a \<^verbatim>\<open>>\<close>; the scan resumes after a match, and at the next code unit
  otherwise.
\<close>

function scanTags :: "string \<Rightarrow> string list" where
  "scanTags [] = []"
| "scanTags (c # cs) =
     (if c = CHR ''<'' \<and> takeWhile (\<lambda>x. x \<noteq> CHR ''>'') cs \<noteq> [] \<and> dropWhile (\<lambda>x. x \<noteq> CHR ''>'') cs \<noteq> []
      then (c # takeWhile (\<lambda>x. x \<noteq> CHR ''>'') cs @ ''>'') # scanTags (drop 1 (dropWhile (\<lambda>x. x \<noteq> CHR ''>'') cs))
      else scanTags cs)"
  by pat_completeness auto
termination
  by (relation "measure length") (auto simp: le_imp_less_Suc length_dropWhile_le less_Suc_eq_le
      intro: le_trans [OF diff_le_self])

text \<open>
  One token of the scan: the name after \<^verbatim>\<open>/^<\s*\/?\s*([a-zA-Z0-9:-]+)/\<close>, whether it is closing
  (\<^verbatim>\<open>/^<\s*\//\<close>) and whether it is self-closing (\<^verbatim>\<open>/\/>\s*$/\<close> or a void name). A token without
  a name, or beginning with \<^verbatim>\<open><!\<close>, \<^verbatim>\<open><?\<close> or \<^verbatim>\<open><%\<close>, is dropped.
\<close>

definition tagNameOf :: "string \<Rightarrow> string" where
  "tagNameOf raw =
     (let r1 = dropWhile isSpace (drop 1 raw);
          r2 = (if startsWith r1 ''/'' then drop 1 r1 else r1);
          r3 = dropWhile isSpace r2
      in takeWhile isNameChar r3)"

definition parseTag :: "string \<Rightarrow> Tag option" where
  "parseTag raw =
     (if startsWith raw ''<!'' \<or> startsWith raw ''<?'' \<or> startsWith raw ''<%'' then None
      else if \<not> startsWith raw ''<'' \<or> tagNameOf raw = [] then None
      else Some \<lparr>name = toLowerCase (tagNameOf raw),
                 isClosing = startsWith (dropWhile isSpace (drop 1 raw)) ''/'',
                 isSelfClosing = (startsWith (dropWhile isSpace (rev raw)) ''>/''
                                  \<or> toLowerCase (tagNameOf raw) \<in> set VOID_TAGS)\<rparr>)"

definition extractTags :: "string \<Rightarrow> Tag list" where
  "extractTags line = List.map_filter parseTag (scanTags line)"

text \<open>
  \<^verbatim>\<open>new RegExp(`<\\s*\\/\\s*${tagName}\\s*>`, 'i')\<close>: the tag names that reach it are
  \<^verbatim>\<open>text\<close>, \<^verbatim>\<open>script\<close> and \<^verbatim>\<open>style\<close>, which stand for themselves in a pattern. With the
  \<^verbatim>\<open>i\<close> flag a letter of the pattern matches both of its cases.
\<close>

definition startsWithCI :: "string \<Rightarrow> string \<Rightarrow> bool" where
  "startsWithCI s p \<longleftrightarrow> length p \<le> length s \<and> map lowerChar (take (length p) s) = map lowerChar p"

definition matchCloseTagAt :: "string \<Rightarrow> string \<Rightarrow> bool" where
  "matchCloseTagAt tagName s \<longleftrightarrow>
     startsWith s ''<'' \<and>
     (let r1 = dropWhile isSpace (drop 1 s) in
      startsWith r1 ''/'' \<and>
      (let r2 = dropWhile isSpace (drop 1 r1) in
       startsWithCI r2 tagName \<and>
       startsWith (dropWhile isSpace (drop (length tagName) r2)) ''>''))"

fun closeTagTest :: "string \<Rightarrow> string \<Rightarrow> bool" where
  "closeTagTest tagName [] = matchCloseTagAt tagName []"
| "closeTagTest tagName (c # cs) = (matchCloseTagAt tagName (c # cs) \<or> closeTagTest tagName cs)"

definition TEXT_CLOSE_RE_test :: "string \<Rightarrow> bool" where
  "TEXT_CLOSE_RE_test s = closeTagTest ''text'' s"

definition containsClosingTag :: "string \<Rightarrow> string \<Rightarrow> bool" where
  "containsClosingTag line tagName = (if tagName = [] then False else closeTagTest tagName line)"

text \<open>
  \<^verbatim>\<open>countLeadingClosings\<close>. \<^verbatim>\<open>/^<\s*\/\s*[a-zA-Z0-9:-]+[^>]*>\s*/\<close> needs a name code unit after
  the slash and runs to the first \<^verbatim>\<open>>\<close> and the white space after it;
  \<^verbatim>\<open>/^@?\}\s*/\<close> is an optional sigil, a closing brace and white space. Each function returns
  what is left of the string after the match.
\<close>

definition matchLeadingCloseTag :: "string \<Rightarrow> string option" where
  "matchLeadingCloseTag s =
     (if \<not> startsWith s ''<'' then None
      else let r1 = dropWhile isSpace (drop 1 s) in
        if \<not> startsWith r1 ''/'' then None
        else let r2 = dropWhile isSpace (drop 1 r1) in
          if r2 = [] \<or> \<not> isNameChar (hd r2) then None
          else let r3 = dropWhile (\<lambda>x. x \<noteq> CHR ''>'') r2 in
            if r3 = [] then None else Some (dropWhile isSpace (drop 1 r3)))"

definition matchLeadingBrace :: "string \<Rightarrow> string option" where
  "matchLeadingBrace s =
     (if startsWith s ''@}'' then Some (dropWhile isSpace (drop 2 s))
      else if startsWith s ''}'' then Some (dropWhile isSpace (drop 1 s))
      else None)"

lemma dropWhile_shorter: "length (dropWhile P xs) \<le> length xs"
  by (rule length_dropWhile_le)

lemma startsWith_nonempty: "startsWith s (p # ps) \<Longrightarrow> s \<noteq> []"
  by (cases s) auto

lemma matchLeadingCloseTag_shorter:
  assumes "matchLeadingCloseTag s = Some r"
  shows "length r < length s"
proof -
  define r1 where "r1 = dropWhile isSpace (drop 1 s)"
  define r2 where "r2 = dropWhile isSpace (drop 1 r1)"
  define r3 where "r3 = dropWhile (\<lambda>x. x \<noteq> CHR ''>'') r2"
  from assms have s: "startsWith s ''<''" and r3: "r3 \<noteq> []" and r: "r = dropWhile isSpace (drop 1 r3)"
    by (auto simp: matchLeadingCloseTag_def Let_def r1_def r2_def r3_def split: if_splits)
  have "length r \<le> length (drop 1 r3)" unfolding r by (rule dropWhile_shorter)
  also have "\<dots> < length r3" using r3 by (cases r3) auto
  also have "\<dots> \<le> length r2" unfolding r3_def by (rule dropWhile_shorter)
  also have "\<dots> \<le> length (drop 1 r1)" unfolding r2_def by (rule dropWhile_shorter)
  also have "\<dots> \<le> length r1" by simp
  also have "\<dots> \<le> length (drop 1 s)" unfolding r1_def by (rule dropWhile_shorter)
  also have "\<dots> \<le> length s" by simp
  finally show ?thesis .
qed

lemma matchLeadingBrace_shorter:
  assumes "matchLeadingBrace s = Some r"
  shows "length r < length s"
proof -
  have a: "length (dropWhile isSpace (drop 2 s)) \<le> length s - 2"
    using dropWhile_shorter [of isSpace "drop 2 s"] by simp
  have b: "length (dropWhile isSpace (drop 1 s)) \<le> length s - 1"
    using dropWhile_shorter [of isSpace "drop 1 s"] by simp
  from assms show ?thesis
    using a b by (cases s) (auto simp: matchLeadingBrace_def split: if_splits)
qed

function countLeadingClosingsFrom :: "int \<Rightarrow> string \<Rightarrow> int" where
  "countLeadingClosingsFrom count rest' =
     (case matchLeadingCloseTag rest' of
        Some r \<Rightarrow> countLeadingClosingsFrom (count + 1) r
      | None \<Rightarrow>
         (case matchLeadingBrace rest' of
            Some r \<Rightarrow> countLeadingClosingsFrom (count + 1) r
          | None \<Rightarrow> count))"
  by pat_completeness auto
termination
  by (relation "measure (\<lambda>(c, s). length s)")
     (auto simp: matchLeadingCloseTag_shorter matchLeadingBrace_shorter)

declare countLeadingClosingsFrom.simps [simp del]

definition countLeadingClosings :: "string \<Rightarrow> int" where
  "countLeadingClosings trimmed = countLeadingClosingsFrom 0 trimmed"

definition isHtmlLine :: "string \<Rightarrow> bool" where
  "isHtmlLine trimmed =
     (let lower = toLowerCase trimmed in
      if startsWith lower ''<'' then True
      else if startsWith lower ''@:'' then startsWith (trimStart (drop 2 lower)) ''<''
      else False)"

definition isLineOpeningTag :: "string \<Rightarrow> string \<Rightarrow> bool" where
  "isLineOpeningTag trimmed tagName =
     (let lower = toLowerCase trimmed in
      if startsWith lower (''<'' @ tagName) then True
      else if startsWith lower ''@:'' then startsWith (trimStart (drop 2 lower)) (''<'' @ tagName)
      else False)"

definition isLineClosingTag :: "string \<Rightarrow> string \<Rightarrow> bool" where
  "isLineClosingTag trimmed tagName =
     (let lower = toLowerCase trimmed in
      if startsWith lower (''</'' @ tagName) then True
      else if startsWith lower ''@:'' then startsWith (trimStart (drop 2 lower)) (''</'' @ tagName)
      else False)"

text \<open>\<^verbatim>\<open>countLeadingBraceClosings\<close>: after an optional \<^verbatim>\<open>/^@:\s*/\<close>, the length of the run of
  closing braces.\<close>

definition countLeadingBraceClosings :: "string \<Rightarrow> int" where
  "countLeadingBraceClosings trimmed =
     (let rest' = (if startsWith trimmed ''@:'' then dropWhile isSpace (drop 2 trimmed) else trimmed)
      in int (length (takeWhile (\<lambda>c. c = CHR ''}'') rest')))"

text \<open>
  \<^verbatim>\<open>countBraces\<close> returns \<^verbatim>\<open>(open, close, inBlockComment)\<close>. \<^verbatim>\<open>next\<close> is the following code
  unit as a string, empty at the end of the line. The source compares the code unit
  \<^verbatim>\<open>char\<close> with the string literal \<^verbatim>\<open>'\\\\'\<close>, which is two backslashes long.
\<close>

function countBracesFrom ::
  "string \<Rightarrow> int \<Rightarrow> int \<Rightarrow> bool \<Rightarrow> bool \<Rightarrow> bool \<Rightarrow> bool \<Rightarrow> bool \<Rightarrow> int \<times> int \<times> bool" where
  "countBracesFrom [] opn cls inSingle inDouble inTemplate escaped inBC = (opn, cls, inBC)"
| "countBracesFrom (ch # cs) opn cls inSingle inDouble inTemplate escaped inBC =
     (let next = take 1 cs in
      if inBC then
        (if ch = CHR ''*'' \<and> next = ''/''
         then countBracesFrom (drop 1 cs) opn cls inSingle inDouble inTemplate escaped False
         else countBracesFrom cs opn cls inSingle inDouble inTemplate escaped inBC)
      else if \<not> inSingle \<and> \<not> inDouble \<and> \<not> inTemplate \<and> ch = CHR ''/'' \<and> next = ''*''
        then countBracesFrom (drop 1 cs) opn cls inSingle inDouble inTemplate escaped True
      else if \<not> inSingle \<and> \<not> inDouble \<and> \<not> inTemplate \<and> ch = CHR ''/'' \<and> next = ''/''
        then (opn, cls, inBC)
      else if escaped
        then countBracesFrom cs opn cls inSingle inDouble inTemplate False inBC
      else if [ch] = [CHR 0x5C, CHR 0x5C] \<and> (inSingle \<or> inDouble \<or> inTemplate)
        then countBracesFrom cs opn cls inSingle inDouble inTemplate True inBC
      else if \<not> inDouble \<and> \<not> inTemplate \<and> ch = CHR 0x27
        then countBracesFrom cs opn cls (\<not> inSingle) inDouble inTemplate escaped inBC
      else if \<not> inSingle \<and> \<not> inTemplate \<and> ch = CHR 0x22
        then countBracesFrom cs opn cls inSingle (\<not> inDouble) inTemplate escaped inBC
      else if \<not> inSingle \<and> \<not> inDouble \<and> ch = CHR 0x60
        then countBracesFrom cs opn cls inSingle inDouble (\<not> inTemplate) escaped inBC
      else if inSingle \<or> inDouble \<or> inTemplate
        then countBracesFrom cs opn cls inSingle inDouble inTemplate escaped inBC
      else if ch = CHR ''{''
        then countBracesFrom cs (opn + 1) cls inSingle inDouble inTemplate escaped inBC
      else if ch = CHR ''}''
        then countBracesFrom cs opn (cls + 1) inSingle inDouble inTemplate escaped inBC
      else countBracesFrom cs opn cls inSingle inDouble inTemplate escaped inBC)"
  by pat_completeness auto
termination
  by (relation "measure (\<lambda>(s, r). length s)") auto

declare countBracesFrom.simps [simp del]

definition countBraces :: "string \<Rightarrow> bool \<Rightarrow> int \<times> int \<times> bool" where
  "countBraces line inBC = countBracesFrom line 0 0 False False False False inBC"

text \<open>The tests \<^verbatim>\<open>/^switch\s*\(/\<close>, \<^verbatim>\<open>/^case\b/\<close>, \<^verbatim>\<open>/^default\b/\<close> and \<^verbatim>\<open>/^break\b/\<close>.\<close>

definition switchHeadTest :: "string \<Rightarrow> bool" where
  "switchHeadTest s \<longleftrightarrow> startsWith s ''switch'' \<and> startsWith (dropWhile isSpace (drop 6 s)) ''(''"

definition keywordTest :: "string \<Rightarrow> string \<Rightarrow> bool" where
  "keywordTest kw s \<longleftrightarrow> startsWith s kw \<and>
     (case drop (length kw) s of [] \<Rightarrow> True | c # cs \<Rightarrow> \<not> isWordChar c)"

section \<open>The state of a formatting run\<close>

record TextBlock =
  startLine :: int
  endLine :: int
  parentLevel :: int
  tagName :: string
  skip :: bool

record RawLineMeta =
  isRawBlock :: bool
  isCaseOrDefault :: bool
  isBreak :: bool
  isSwitchLine :: bool

text \<open>
  The four per-line arrays that \<^verbatim>\<open>formatText\<close> allocates and that the passes fill in place;
  a \<^verbatim>\<open>null\<close> entry is \<^const>\<open>None\<close>. The variables that the document pass and the
  block pass both keep (under the same names in the source) extend them, and each pass
  extends those with its own. \<^verbatim>\<open>switchDepths\<close> is a stack: the head of the list stands for
  the last element of the array.
\<close>

record Arrays =
  desiredIndents :: "int option list"
  indentAfterRazorPrefix :: "bool list"
  razorTextContentIndents :: "int list"
  rawLineMeta :: "RawLineMeta option list"

record ScanState = Arrays +
  level :: int
  inBlockComment :: bool
  switchDepths :: "int list"
  caseIndentDepth :: "int option"
  pendingSwitch :: bool

record DocState = ScanState +
  inComment :: bool
  inRawTag :: "string option"
  inTextBlock :: bool
  currentTextBlock :: "TextBlock option"
  inRawBlock :: bool
  textBlocks :: "TextBlock list"

record BlockState = ScanState +
  razorBraceDepth :: int
  inRazorCodeBlock :: bool
  razorTextGroupBaseLevel :: "int option"

definition arraysOf :: "'a Arrays_scheme \<Rightarrow> Arrays" where
  "arraysOf a = \<lparr>desiredIndents = desiredIndents a,
                 indentAfterRazorPrefix = indentAfterRazorPrefix a,
                 razorTextContentIndents = razorTextContentIndents a,
                 rawLineMeta = rawLineMeta a\<rparr>"

text \<open>\<^verbatim>\<open>while (switchDepths.length > 0 && nextLevel < top) switchDepths.pop()\<close>\<close>

fun popSwitchDepths :: "int \<Rightarrow> int list \<Rightarrow> int list" where
  "popSwitchDepths nextLevel [] = []"
| "popSwitchDepths nextLevel (d # ds) =
     (if nextLevel < d then popSwitchDepths nextLevel ds else d # ds)"

text \<open>
  What both passes read off a line: the code part of the line (\<^verbatim>\<open>codeTrimmed\<close> in the
  document pass, \<^verbatim>\<open>jsTrimmed\<close> in the block pass), whether a switch body is open at the
  current level, and whether the line closes the innermost switch.
\<close>

definition codePart :: "string \<Rightarrow> string" where
  "codePart trimmed =
     (if startsWith trimmed ''@:'' then trimStart (drop 2 trimmed)
      else if startsWith trimmed ''@'' then [] else trimmed)"

definition caseOrDefaultTest :: "string \<Rightarrow> bool" where
  "caseOrDefaultTest code \<longleftrightarrow> keywordTest ''case'' code \<or> keywordTest ''default'' code"

definition switchOpen :: "int list \<Rightarrow> int \<Rightarrow> bool" where
  "switchOpen depths lvl \<longleftrightarrow> depths \<noteq> [] \<and> lvl \<ge> hd depths"

definition closesSwitchAt :: "bool \<Rightarrow> int list \<Rightarrow> int \<Rightarrow> bool" where
  "closesSwitchAt isClosingBraceLine depths nextLevel \<longleftrightarrow>
     isClosingBraceLine \<and> depths \<noteq> [] \<and> nextLevel < hd depths"

text \<open>
  The extra indent unit of a switch body: \<^verbatim>\<open>inSwitch && caseIndentDepth !== null &&
  !isCaseOrDefault && !closesSwitch\<close>.
\<close>

definition switchExtra :: "bool \<Rightarrow> int option \<Rightarrow> bool \<Rightarrow> bool \<Rightarrow> bool" where
  "switchExtra inSwitch caseDepth isCase closesSwitch \<longleftrightarrow>
     inSwitch \<and> caseDepth \<noteq> None \<and> \<not> isCase \<and> \<not> closesSwitch"

section \<open>The document pass\<close>

text \<open>
  The head of the loop body: a \<^verbatim>\<open><text>\<close> capture ends at a line that contains the closing
  tag, a script or style capture at a line that contains its own; the block then ends at the
  line before.
\<close>

definition closeCurrent :: "nat \<Rightarrow> DocState \<Rightarrow> DocState" where
  "closeCurrent i st =
     (case currentTextBlock st of
        None \<Rightarrow> st
      | Some b \<Rightarrow> st\<lparr>textBlocks := textBlocks st @ [b\<lparr>endLine := int i - 1\<rparr>],
                      currentTextBlock := None\<rparr>)"

definition closeCaptures :: "nat \<Rightarrow> string \<Rightarrow> string \<Rightarrow> DocState \<Rightarrow> DocState" where
  "closeCaptures i line trimmed st =
     (let hasTextClose = TEXT_CLOSE_RE_test trimmed;
          hasRawClose = (inRawBlock st \<and>
             containsClosingTag line (case currentTextBlock st of None \<Rightarrow> [] | Some b \<Rightarrow> tagName b));
          st1 = (if inTextBlock st \<and> hasTextClose
                 then (closeCurrent i st)\<lparr>inTextBlock := False\<rparr> else st);
          st2 = (if inRawBlock st1 \<and> hasRawClose
                 then (closeCurrent i st1)\<lparr>inRawBlock := False\<rparr> else st1)
      in st2)"

text \<open>
  The counts of a processed line, as
  \<^verbatim>\<open>(leadingCloseCount, openCount, closeCount, braceResult.open, inComment, inRawTag,
  inBlockComment)\<close>. A raw tag name is stored only when it is \<^verbatim>\<open>script\<close> or \<^verbatim>\<open>style\<close>, so
  \<^verbatim>\<open>if (inRawTag)\<close> asks whether one is stored.
\<close>

fun countTags :: "Tag list \<Rightarrow> int \<times> int \<times> string option \<Rightarrow> int \<times> int \<times> string option" where
  "countTags [] acc = acc"
| "countTags (tag # tags) (openCount, closeCount, rawTag) =
     (if isClosing tag then countTags tags (openCount, closeCount + 1, rawTag)
      else if isSelfClosing tag then countTags tags (openCount, closeCount, rawTag)
      else countTags tags (openCount + 1, closeCount,
             if name tag \<in> set RAW_TAGS then Some (name tag) else rawTag))"

record LineCounts =
  leadingCloseCount :: int
  openCount :: int
  closeCount :: int
  braceOpen :: int
  inCommentAfter :: bool
  inRawTagAfter :: "string option"
  inBlockCommentAfter :: bool

definition lineCounts :: "string \<Rightarrow> string \<Rightarrow> string \<Rightarrow> DocState \<Rightarrow> LineCounts" where
  "lineCounts line trimmed rest' st =
     (let (cleanLine, inComment') = stripHtmlComments line (inComment st);
          lcc = countLeadingClosings trimmed
      in case inRawTag st of
           Some t \<Rightarrow>
             (if containsClosingTag cleanLine t
              then \<lparr>leadingCloseCount = (if lcc = 0 \<and> startsWith trimmed (''</'' @ t) then 1 else lcc),
                    openCount = 0, closeCount = 1, braceOpen = 0,
                    inCommentAfter = inComment', inRawTagAfter = None,
                    inBlockCommentAfter = inBlockComment st\<rparr>
              else \<lparr>leadingCloseCount = lcc, openCount = 0, closeCount = 0, braceOpen = 0,
                    inCommentAfter = inComment', inRawTagAfter = Some t,
                    inBlockCommentAfter = inBlockComment st\<rparr>)
         | None \<Rightarrow>
             (if \<not> inComment' then
                (let (o1, c1, rawTag) =
                       (if isHtmlLine trimmed then countTags (extractTags cleanLine) (0, 0, None)
                        else (0, 0, None));
                     (bo, bc, inBC) = countBraces rest' (inBlockComment st)
                 in \<lparr>leadingCloseCount = lcc, openCount = o1 + bo, closeCount = c1 + bc,
                     braceOpen = bo, inCommentAfter = inComment', inRawTagAfter = rawTag,
                     inBlockCommentAfter = inBC\<rparr>)
              else \<lparr>leadingCloseCount = lcc, openCount = 0, closeCount = 0, braceOpen = 0,
                    inCommentAfter = inComment', inRawTagAfter = None,
                    inBlockCommentAfter = inBlockComment st\<rparr>))"

text \<open>The width that the document pass assigns to a processed line.\<close>

definition docLineIndent :: "int \<Rightarrow> string \<Rightarrow> LineCounts \<Rightarrow> DocState \<Rightarrow> int" where
  "docLineIndent indentSize trimmed lc st =
     (let effectiveLevel = max 0 (level st - leadingCloseCount lc);
          isHtml = isHtmlLine trimmed;
          codeTrimmed = codePart trimmed;
          isCase = (\<not> isHtml \<and> caseOrDefaultTest codeTrimmed);
          isClosingBraceLine = (\<not> isHtml \<and> startsWith codeTrimmed ''}'');
          inSwitch = switchOpen (switchDepths st) (level st);
          nextLevel = max 0 (level st - closeCount lc + openCount lc);
          closesSwitch = closesSwitchAt isClosingBraceLine (switchDepths st) nextLevel
      in effectiveLevel * indentSize +
         (if switchExtra inSwitch (caseIndentDepth st) isCase closesSwitch then indentSize else 0))"

text \<open>The bookkeeping of switch bodies after the width is assigned, and the new level.\<close>

definition docAdvance :: "string \<Rightarrow> LineCounts \<Rightarrow> DocState \<Rightarrow> DocState" where
  "docAdvance trimmed lc st =
     (let isHtml = isHtmlLine trimmed;
          codeTrimmed = codePart trimmed;
          isSwitch = (\<not> isHtml \<and> switchHeadTest codeTrimmed);
          isCase = (\<not> isHtml \<and> caseOrDefaultTest codeTrimmed);
          inSwitch = switchOpen (switchDepths st) (level st);
          nextLevel = max 0 (level st - closeCount lc + openCount lc);
          (depths1, pending1, setThisLine) =
             (if isSwitch then
                (if braceOpen lc > 0 then (nextLevel # switchDepths st, False, False)
                 else (switchDepths st, True, True))
              else (switchDepths st, pendingSwitch st, False));
          (depths2, pending2) =
             (if pending1 \<and> braceOpen lc > 0 \<and> startsWith codeTrimmed ''{''
              then (nextLevel # depths1, False) else (depths1, pending1));
          pending3 =
             (if \<not> setThisLine \<and> pending2 \<and> codeTrimmed \<noteq> [] \<and> \<not> startsWith codeTrimmed ''{''
              then False else pending2);
          caseDepth1 = (if inSwitch \<and> isCase then Some (level st) else caseIndentDepth st);
          depths3 = popSwitchDepths nextLevel depths2;
          caseDepth2 = (case caseDepth1 of
                          None \<Rightarrow> None
                        | Some d \<Rightarrow> if nextLevel < d then None else Some d)
      in st\<lparr>level := nextLevel, switchDepths := depths3, caseIndentDepth := caseDepth2,
            pendingSwitch := pending3, inComment := inCommentAfter lc,
            inRawTag := inRawTagAfter lc, inBlockComment := inBlockCommentAfter lc\<rparr>)"

text \<open>
  The end of the loop body: a line that opens \<^verbatim>\<open>text\<close>, \<^verbatim>\<open>script\<close> or \<^verbatim>\<open>style\<close> without
  closing it starts a capture at the next line.
\<close>

definition newBlock :: "nat \<Rightarrow> string \<Rightarrow> DocState \<Rightarrow> TextBlock" where
  "newBlock i tag st = \<lparr>startLine = int i + 1, endLine = int i,
     parentLevel = max 0 (level st - 1), tagName = tag, skip = False\<rparr>"

definition openCaptures :: "nat \<Rightarrow> string \<Rightarrow> DocState \<Rightarrow> DocState" where
  "openCaptures i trimmed st =
     (let st1 = (if isLineOpeningTag trimmed ''text'' \<and> \<not> isLineClosingTag trimmed ''text''
                 then st\<lparr>inTextBlock := True, currentTextBlock := Some (newBlock i ''text'' st)\<rparr>
                 else st);
          st2 = (if isLineOpeningTag trimmed ''script'' \<and> \<not> isLineClosingTag trimmed ''script''
                 then st1\<lparr>inRawBlock := True, currentTextBlock := Some (newBlock i ''script'' st1)\<rparr>
                 else st1);
          st3 = (if isLineOpeningTag trimmed ''style'' \<and> \<not> isLineClosingTag trimmed ''style''
                 then st2\<lparr>inRawBlock := True, currentTextBlock := Some (newBlock i ''style'' st2)\<rparr>
                 else st2)
      in st3)"

definition docStep :: "int \<Rightarrow> string list \<Rightarrow> LineInfo list \<Rightarrow> nat \<Rightarrow> DocState \<Rightarrow> DocState" where
  "docStep indentSize lines lineInfos i st =
     (let line = lines ! i;
          trimmed = trimStart (rest (lineInfos ! i));
          st2 = closeCaptures i line trimmed st
      in if inTextBlock st2 \<or> inRawBlock st2
         then st2\<lparr>desiredIndents := (desiredIndents st2)[i := None]\<rparr>
         else
           (let lc = lineCounts line trimmed (rest (lineInfos ! i)) st2;
                st3 = st2\<lparr>desiredIndents :=
                        (desiredIndents st2)[i := Some (docLineIndent indentSize trimmed lc st2)]\<rparr>
            in openCaptures i trimmed (docAdvance trimmed lc st3)))"

definition initialDocState :: "nat \<Rightarrow> DocState" where
  "initialDocState n =
     \<lparr>desiredIndents = replicate n None,
      indentAfterRazorPrefix = replicate n False,
      razorTextContentIndents = replicate n 0,
      rawLineMeta = replicate n None,
      level = 0, inBlockComment = False, switchDepths = [], caseIndentDepth = None,
      pendingSwitch = False,
      inComment = False, inRawTag = None, inTextBlock = False, currentTextBlock = None,
      inRawBlock = False, textBlocks = []\<rparr>"

text \<open>The state after the first \<open>k\<close> lines, and the whole loop with the step that follows it:
  a \<^verbatim>\<open><text>\<close> capture still open at the end becomes a skipped block.\<close>

definition docStateAt :: "int \<Rightarrow> string list \<Rightarrow> LineInfo list \<Rightarrow> nat \<Rightarrow> DocState" where
  "docStateAt indentSize lines lineInfos k =
     fold (docStep indentSize lines lineInfos) [0..<k] (initialDocState (length lines))"

definition docPass :: "int \<Rightarrow> string list \<Rightarrow> LineInfo list \<Rightarrow> DocState" where
  "docPass indentSize lines lineInfos =
     (let st = docStateAt indentSize lines lineInfos (length lines)
      in case currentTextBlock st of
           Some b \<Rightarrow> (if inTextBlock st
                      then st\<lparr>textBlocks := textBlocks st @
                             [b\<lparr>endLine := int (length lines) - 1, skip := True\<rparr>]\<rparr>
                      else st)
         | None \<Rightarrow> st)"

section \<open>The block pass\<close>

definition blockLines :: "TextBlock \<Rightarrow> nat list" where
  "blockLines block = map nat [startLine block..endLine block]"

definition applySingleTextBlockOriginalIndent ::
  "TextBlock \<Rightarrow> LineInfo list \<Rightarrow> Arrays \<Rightarrow> Arrays" where
  "applySingleTextBlockOriginalIndent block lineInfos arr =
     fold (\<lambda>lineIndex a. a\<lparr>desiredIndents :=
             (desiredIndents a)[lineIndex := Some (leadingWidth (lineInfos ! lineIndex))]\<rparr>)
          (blockLines block) arr"

definition applyTextBlockOriginalIndent ::
  "TextBlock list \<Rightarrow> LineInfo list \<Rightarrow> Arrays \<Rightarrow> Arrays" where
  "applyTextBlockOriginalIndent blocks lineInfos arr =
     fold (\<lambda>block a. applySingleTextBlockOriginalIndent block lineInfos a) blocks arr"

text \<open>
  \<^verbatim>\<open>shouldPreserveRawBlockIndent\<close> over the \<^verbatim>\<open>rest\<close> of each line of the block, with the
  variables \<^verbatim>\<open>hasRazorDirective\<close>, \<^verbatim>\<open>hasNonRazorLine\<close> and \<^verbatim>\<open>razorBraceDepth\<close> of its loop.
\<close>

fun preserveLoop :: "string list \<Rightarrow> bool \<Rightarrow> bool \<Rightarrow> int \<Rightarrow> bool" where
  "preserveLoop [] hasRazorDirective hasNonRazorLine depth = False"
| "preserveLoop (r # rs) hasRazorDirective hasNonRazorLine depth =
     (let trimmed = trimStart r in
      if trimmed = [] then preserveLoop rs hasRazorDirective hasNonRazorLine depth
      else
        (let isRazorTextLine = startsWith trimmed ''@:'';
             isRazorDirectiveLine = (startsWith trimmed ''@'' \<and> \<not> isRazorTextLine);
             inRazorBlock = (depth > 0 \<or> isRazorDirectiveLine);
             hasRazorDirective' = (hasRazorDirective \<or> isRazorDirectiveLine);
             hasNonRazorLine' = (hasNonRazorLine \<or>
                (\<not> isRazorDirectiveLine \<and> \<not> startsWith trimmed ''@'' \<and> \<not> inRazorBlock));
             depth' = (if inRazorBlock
                       then (case countBraces r False of (bo, bc, inBC) \<Rightarrow> max 0 (depth + bo - bc))
                       else depth)
         in if hasRazorDirective' \<and> hasNonRazorLine' then True
            else preserveLoop rs hasRazorDirective' hasNonRazorLine' depth'))"

definition shouldPreserveRawBlockIndent :: "TextBlock \<Rightarrow> LineInfo list \<Rightarrow> bool" where
  "shouldPreserveRawBlockIndent block lineInfos =
     preserveLoop (map (\<lambda>lineIndex. rest (lineInfos ! lineIndex)) (blockLines block)) False False 0"

definition blockBaseIndent :: "int \<Rightarrow> bool \<Rightarrow> TextBlock \<Rightarrow> int" where
  "blockBaseIndent indentSize isRaw block =
     parentLevel block * indentSize + (if isRaw \<and> parentLevel block = 0 then 0 else indentSize)"

text \<open>
  What the block pass reads off a non-empty line in the state before it:
  \<^verbatim>\<open>effectiveLevel\<close>, whether the switch-body extra applies, and the width assigned to
  \<^verbatim>\<open>desiredIndents\<close>.
\<close>

definition blockEffectiveLevel :: "string \<Rightarrow> BlockState \<Rightarrow> int" where
  "blockEffectiveLevel trimmed st =
     max 0 (level st - (if countLeadingBraceClosings trimmed > 0 then 1 else 0))"

definition blockNextLevel :: "string \<Rightarrow> BlockState \<Rightarrow> int" where
  "blockNextLevel rest' st =
     (case countBraces rest' (inBlockComment st) of (bo, bc, inBC) \<Rightarrow> max 0 (level st + bo - bc))"

definition blockSwitchExtra :: "bool \<Rightarrow> string \<Rightarrow> BlockState \<Rightarrow> bool" where
  "blockSwitchExtra isRaw rest' st =
     (let jsTrimmed = codePart (trimStart rest');
          isCase = (isRaw \<and> caseOrDefaultTest jsTrimmed);
          isClosingBraceLine = (isRaw \<and> startsWith jsTrimmed ''}'');
          inSwitch = (isRaw \<and> switchOpen (switchDepths st) (level st));
          closesSwitch = closesSwitchAt isClosingBraceLine (switchDepths st) (blockNextLevel rest' st)
      in switchExtra inSwitch (caseIndentDepth st) isCase closesSwitch)"

definition blockGroupLevel :: "string \<Rightarrow> BlockState \<Rightarrow> int" where
  "blockGroupLevel trimmed st =
     (case razorTextGroupBaseLevel st of
        None \<Rightarrow> blockEffectiveLevel trimmed st
      | Some g \<Rightarrow> g)"

definition blockLineIndent :: "int \<Rightarrow> bool \<Rightarrow> int \<Rightarrow> string \<Rightarrow> BlockState \<Rightarrow> int" where
  "blockLineIndent indentSize isRaw baseIndent rest' st =
     (let trimmed = trimStart rest' in
      if isRaw \<and> startsWith trimmed ''@:''
      then baseIndent + blockGroupLevel trimmed st * indentSize
      else baseIndent + blockEffectiveLevel trimmed st * indentSize +
           (if blockSwitchExtra isRaw rest' st then indentSize else 0))"

definition blockStep :: "int \<Rightarrow> LineInfo list \<Rightarrow> bool \<Rightarrow> int \<Rightarrow> nat \<Rightarrow> BlockState \<Rightarrow> BlockState" where
  "blockStep indentSize lineInfos isRaw baseIndent lineIndex st =
     (let rest' = rest (lineInfos ! lineIndex) in
      if rest' = [] then
        st\<lparr>desiredIndents := (desiredIndents st)[lineIndex := Some 0],
           razorTextGroupBaseLevel := None,
           rawLineMeta := (if isRaw
              then (rawLineMeta st)[lineIndex := Some \<lparr>isRawBlock = True, isCaseOrDefault = False,
                                                       isBreak = False, isSwitchLine = False\<rparr>]
              else rawLineMeta st)\<rparr>
      else
        (let trimmed = trimStart rest';
             effectiveLevel = blockEffectiveLevel trimmed st;
             isRazorLine = startsWith trimmed ''@'';
             isRazorTextLine = startsWith trimmed ''@:'';
             isRazorDirectiveLine = (isRazorLine \<and> \<not> isRazorTextLine);
             lineInRazorBlock = (isRaw \<and> (inRazorCodeBlock st \<or> isRazorDirectiveLine));
             jsTrimmed = codePart trimmed;
             isSwitch = (isRaw \<and> switchHeadTest jsTrimmed);
             isCase = (isRaw \<and> caseOrDefaultTest jsTrimmed);
             isBreakLine = (isRaw \<and> keywordTest ''break'' jsTrimmed);
             inSwitch = (isRaw \<and> switchOpen (switchDepths st) (level st));
             (bo, bc, inBC) = countBraces rest' (inBlockComment st);
             nextLevel = blockNextLevel rest' st;
             extra = blockSwitchExtra isRaw rest' st;
             group = blockGroupLevel trimmed st;
             contentIndent = max 0 ((effectiveLevel - group) * indentSize)
                             + (if extra then indentSize else 0);
             (depths1, pending1, setThisLine) =
               (if isRaw \<and> isSwitch then
                  (if bo > 0 then (nextLevel # switchDepths st, False, False)
                   else (switchDepths st, True, True))
                else (switchDepths st, pendingSwitch st, False));
             (depths2, pending2) =
               (if isRaw \<and> pending1 \<and> bo > 0 \<and> startsWith jsTrimmed ''{''
                then (nextLevel # depths1, False) else (depths1, pending1));
             pending3 =
               (if \<not> setThisLine \<and> pending2 \<and> jsTrimmed \<noteq> [] \<and> \<not> startsWith jsTrimmed ''{''
                then False else pending2);
             caseDepth1 = (if inSwitch \<and> isCase then Some (level st) else caseIndentDepth st);
             depths3 = popSwitchDepths nextLevel depths2;
             caseDepth2 = (case caseDepth1 of
                             None \<Rightarrow> None
                           | Some d \<Rightarrow> if nextLevel < d then None else Some d);
             depth' = (if lineInRazorBlock then max 0 (razorBraceDepth st + bo - bc)
                       else razorBraceDepth st)
         in st\<lparr>desiredIndents := (desiredIndents st)
                  [lineIndex := Some (blockLineIndent indentSize isRaw baseIndent rest' st)],
               indentAfterRazorPrefix := (if isRaw \<and> isRazorTextLine
                  then (indentAfterRazorPrefix st)[lineIndex := True]
                  else indentAfterRazorPrefix st),
               razorTextContentIndents := (if isRaw \<and> isRazorTextLine
                  then (razorTextContentIndents st)[lineIndex := contentIndent]
                  else razorTextContentIndents st),
               rawLineMeta := (if isRaw
                  then (rawLineMeta st)[lineIndex := Some \<lparr>isRawBlock = True,
                          isCaseOrDefault = (inSwitch \<and> isCase), isBreak = (inSwitch \<and> isBreakLine),
                          isSwitchLine = (inSwitch \<and> isSwitch)\<rparr>]
                  else rawLineMeta st),
               razorTextGroupBaseLevel := (if isRaw \<and> isRazorTextLine then Some group
                  else if isRaw then None else razorTextGroupBaseLevel st),
               inBlockComment := inBC,
               razorBraceDepth := depth',
               inRazorCodeBlock := (if lineInRazorBlock then depth' > 0 else inRazorCodeBlock st),
               switchDepths := depths3, caseIndentDepth := caseDepth2, pendingSwitch := pending3,
               level := nextLevel\<rparr>))"

definition initialBlockState :: "Arrays \<Rightarrow> BlockState" where
  "initialBlockState arr =
     \<lparr>desiredIndents = desiredIndents arr,
      indentAfterRazorPrefix = indentAfterRazorPrefix arr,
      razorTextContentIndents = razorTextContentIndents arr,
      rawLineMeta = rawLineMeta arr,
      level = 0, inBlockComment = False, switchDepths = [], caseIndentDepth = None,
      pendingSwitch = False,
      razorBraceDepth = 0, inRazorCodeBlock = False, razorTextGroupBaseLevel = None\<rparr>"

text \<open>The state of the nested pass over a block after its first \<open>k\<close> lines.\<close>

definition blockStateAt ::
  "int \<Rightarrow> LineInfo list \<Rightarrow> TextBlock \<Rightarrow> Arrays \<Rightarrow> nat \<Rightarrow> BlockState" where
  "blockStateAt indentSize lineInfos block arr k =
     (let isRaw = (tagName block \<in> set RAW_TAGS)
      in fold (blockStep indentSize lineInfos isRaw (blockBaseIndent indentSize isRaw block))
           (take k (blockLines block)) (initialBlockState arr))"

definition applyBlock :: "int \<Rightarrow> LineInfo list \<Rightarrow> TextBlock \<Rightarrow> Arrays \<Rightarrow> Arrays" where
  "applyBlock indentSize lineInfos block arr =
     (if skip block \<or> endLine block < startLine block
      then applySingleTextBlockOriginalIndent block lineInfos arr
      else if tagName block \<in> set RAW_TAGS \<and> shouldPreserveRawBlockIndent block lineInfos
      then applySingleTextBlockOriginalIndent block lineInfos arr
      else arraysOf (blockStateAt indentSize lineInfos block arr (length (blockLines block))))"

definition applyTextBlockIndentation ::
  "TextBlock list \<Rightarrow> LineInfo list \<Rightarrow> int \<Rightarrow> Arrays \<Rightarrow> Arrays" where
  "applyTextBlockIndentation blocks lineInfos indentSize arr =
     fold (\<lambda>block a. applyBlock indentSize lineInfos block a) blocks arr"

section \<open>Rendering, switch spacing and validation\<close>

text \<open>
  \<^verbatim>\<open>/^switch\s*\((.*)\)\s*\{\s*$/\<close>. A match ends in a closing parenthesis, white space, an
  opening brace and white space up to the end of the string; read from the end, each of these
  is forced, so the group is what lies between the first parenthesis and that closing one,
  and it must be free of line terminators.
\<close>

definition matchSwitchHeader :: "string \<Rightarrow> string option" where
  "matchSwitchHeader s =
     (if \<not> startsWith s ''switch'' then None
      else let r = dropWhile isSpace (drop 6 s) in
        if \<not> startsWith r ''('' then None
        else let b1 = dropWhile isSpace (rev (drop 1 r)) in
          if \<not> startsWith b1 ''{'' then None
          else let b2 = dropWhile isSpace (drop 1 b1) in
            if \<not> startsWith b2 '')'' then None
            else let inner = rev (drop 1 b2) in
              if \<exists>c \<in> set inner. isLineTerminator c then None else Some inner)"

definition switchHeader :: "string \<Rightarrow> string" where
  "switchHeader inner = ''switch ('' @ trim inner @ '') {''"

definition normalizeSwitchSpacing :: "string \<Rightarrow> string" where
  "normalizeSwitchSpacing line =
     (case matchSwitchHeader line of None \<Rightarrow> line | Some inner \<Rightarrow> switchHeader inner)"

definition formatRawLineContent :: "string \<Rightarrow> string" where
  "formatRawLineContent rest' =
     (case matchSwitchHeader (trimStart rest') of None \<Rightarrow> rest' | Some inner \<Rightarrow> switchHeader inner)"

definition normalizeForValidation :: "string \<Rightarrow> string" where
  "normalizeForValidation line =
     (let normalized = dropWhile isSpace line;
          normalized' = (if startsWith normalized ''@:''
                         then ''@:'' @ dropWhile isSpace (drop 2 normalized) else normalized)
      in normalizeSwitchSpacing normalized')"

definition makeIndentedLine :: "string \<Rightarrow> int \<Rightarrow> string" where
  "makeIndentedLine rest' indentWidth =
     (if indentWidth \<le> 0 then rest' else spaces indentWidth @ rest')"

text \<open>
  \<^verbatim>\<open>/^@:([\s]*)(.*)$/\<close> matches when no line terminator follows the white space after the
  prefix; the second group is what follows that white space.
\<close>

definition makeRazorTextIndentedLine :: "string \<Rightarrow> int \<Rightarrow> int \<Rightarrow> string" where
  "makeRazorTextIndentedLine rest' indentWidth contentIndentWidth =
     (let content = dropWhile isSpace (drop 2 rest') in
      if \<not> startsWith rest' ''@:'' \<or> (\<exists>c \<in> set content. isLineTerminator c)
      then makeIndentedLine rest' indentWidth
      else
        (let lineIndent = (if indentWidth > 0 then spaces indentWidth else [])
         in if content = [] then lineIndent @ ''@:''
            else lineIndent @ ''@: '' @ spaces contentIndentWidth @ trimStart content))"

text \<open>The line that \<^verbatim>\<open>formatText\<close> renders for index \<open>index\<close> from the filled arrays.\<close>

definition renderLine :: "LineInfo list \<Rightarrow> Arrays \<Rightarrow> nat \<Rightarrow> string" where
  "renderLine lineInfos arr index =
     (let desired = (case desiredIndents arr ! index of None \<Rightarrow> 0 | Some d \<Rightarrow> d);
          rest0 = rest (lineInfos ! index);
          isRaw = (case rawLineMeta arr ! index of None \<Rightarrow> False | Some m \<Rightarrow> isRawBlock m);
          rest1 = (if isRaw \<and> \<not> indentAfterRazorPrefix arr ! index
                   then formatRawLineContent rest0 else rest0)
      in if indentAfterRazorPrefix arr ! index
         then makeRazorTextIndentedLine rest1 desired (razorTextContentIndents arr ! index)
         else makeIndentedLine rest1 desired)"

text \<open>
  \<^verbatim>\<open>insertSwitchBlankLines\<close>. The loop state is
  \<^verbatim>\<open>(result, insertedBlankLines, inRaw, prevRawBreak, prevRawLineBlank)\<close>; the function returns
  \<^verbatim>\<open>(lines, insertedBlankLines)\<close>. The separator repeats the white space in front of a
  \<^verbatim>\<open>@:\<close> prefix (\<^verbatim>\<open>/^(\s*)@:/\<close>), and is the empty line otherwise.
\<close>

definition isBlankOrPrefix :: "string \<Rightarrow> bool" where
  "isBlankOrPrefix l \<longleftrightarrow> trim l = [] \<or> trim l = ''@:''"

definition separatorFor :: "string \<Rightarrow> string" where
  "separatorFor l =
     (if startsWith (dropWhile isSpace l) ''@:'' then takeWhile isSpace l @ ''@:'' else [])"

definition insertsBefore :: "RawLineMeta \<Rightarrow> bool \<Rightarrow> bool \<Rightarrow> bool" where
  "insertsBefore meta prevRawBreak prevRawLineBlank \<longleftrightarrow>
     isCaseOrDefault meta \<and> prevRawBreak \<and> \<not> prevRawLineBlank"

fun insertLoop ::
  "string list \<Rightarrow> RawLineMeta option list \<Rightarrow> string list \<Rightarrow> bool \<Rightarrow> bool \<Rightarrow> bool \<Rightarrow> bool
   \<Rightarrow> string list \<times> bool" where
  "insertLoop [] metas result inserted inRaw prevRawBreak prevRawLineBlank = (result, inserted)"
| "insertLoop (l # ls) metas result inserted inRaw prevRawBreak prevRawLineBlank =
     (case (case metas of [] \<Rightarrow> None | m # ms \<Rightarrow> m) of
        None \<Rightarrow> insertLoop ls (drop 1 metas) (result @ [l]) inserted False False False
      | Some meta \<Rightarrow>
          if \<not> isRawBlock meta
          then insertLoop ls (drop 1 metas) (result @ [l]) inserted False False False
          else
            (let prevRawBreak1 = (if \<not> inRaw then False else prevRawBreak);
                 prevRawLineBlank1 = (if \<not> inRaw then False else prevRawLineBlank);
                 ins = insertsBefore meta prevRawBreak1 prevRawLineBlank1;
                 result1 = (if ins then result @ [separatorFor l] else result);
                 isBlank = isBlankOrPrefix l
             in insertLoop ls (drop 1 metas) (result1 @ [l]) (inserted \<or> ins) True
                  (if \<not> isBlank then isBreak meta else prevRawBreak1) isBlank))"

definition insertSwitchBlankLines ::
  "string list \<Rightarrow> RawLineMeta option list \<Rightarrow> string list \<times> bool" where
  "insertSwitchBlankLines lines metas = insertLoop lines metas [] False False False False"

text \<open>
  \<^verbatim>\<open>validateOutput\<close>. The lock-step loop returns what it has not consumed of both lists,
  the index it reached in the original and the changed line numbers; the numbers are
  turned into text when the message is built. The result is \<^verbatim>\<open>(ok, message)\<close>.
\<close>

fun validateLoop ::
  "bool \<Rightarrow> string list \<Rightarrow> string list \<Rightarrow> nat \<Rightarrow> nat list \<Rightarrow> string list \<times> string list \<times> nat \<times> nat list" where
  "validateLoop allow [] outs originalIndex changed = ([], outs, originalIndex, changed)"
| "validateLoop allow (original' # origs) [] originalIndex changed =
     (original' # origs, [], originalIndex, changed)"
| "validateLoop allow (original' # origs) (outputLine # outs) originalIndex changed =
     (if allow \<and> isBlankOrPrefix outputLine then
        (if isBlankOrPrefix original'
         then validateLoop allow origs outs (originalIndex + 1) changed
         else validateLoop allow (original' # origs) outs originalIndex changed)
      else validateLoop allow origs outs (originalIndex + 1)
             (if normalizeForValidation original' \<noteq> normalizeForValidation outputLine
              then changed @ [originalIndex + 1] else changed))"

definition lineCountMessage :: string where
  "lineCountMessage = ''Validation failed: line count changed.''"

definition changedMessage :: "nat list \<Rightarrow> string" where
  "changedMessage changed =
     ''Validation failed: non-indentation content changed on line(s) ''
       @ join '', '' (map showNat changed) @ ''.''"

definition validateOutput :: "LineInfo list \<Rightarrow> string list \<Rightarrow> bool \<Rightarrow> bool \<times> string" where
  "validateOutput lineInfos outputLines allowBlankLineInsert =
     (let originalLines = map original lineInfos in
      if \<not> allowBlankLineInsert \<and> length originalLines \<noteq> length outputLines
      then (False, lineCountMessage)
      else
        (case validateLoop allowBlankLineInsert originalLines outputLines 0 [] of
           (origsLeft, outsLeft, originalIndex, changed) \<Rightarrow>
             (let changed1 = changed @ map Suc [originalIndex..<length originalLines] in
              if \<not> allowBlankLineInsert \<and> outsLeft \<noteq> []
              then (False, lineCountMessage)
              else
                (let changed2 = (if allowBlankLineInsert \<and> (\<exists>l \<in> set outsLeft. \<not> isBlankOrPrefix l)
                                 then changed1 @ [length originalLines] else changed1)
                 in if changed2 \<noteq> [] then (False, changedMessage changed2) else (True, [])))))"

section \<open>formatText\<close>

text \<open>
  A JavaScript number is finite, an infinity or NaN. \<^verbatim>\<open>sanitizeIndentSize\<close> takes the
  floor of a finite positive value and 2 for everything else.
\<close>

datatype jsnum = Finite real | PosInfinity | NegInfinity | NaN

fun sanitizeIndentSize :: "jsnum \<Rightarrow> int" where
  "sanitizeIndentSize (Finite v) = (if v \<le> 0 then 2 else \<lfloor>v\<rfloor>)"
| "sanitizeIndentSize PosInfinity = 2"
| "sanitizeIndentSize NegInfinity = 2"
| "sanitizeIndentSize NaN = 2"

text \<open>The arrays after the document pass, the block stage and the fallback of the entries
  that are still \<^verbatim>\<open>null\<close> to the original leading width.\<close>

definition fillNull :: "LineInfo list \<Rightarrow> Arrays \<Rightarrow> Arrays" where
  "fillNull lineInfos arr =
     arr\<lparr>desiredIndents := map (\<lambda>(d, info). case d of None \<Rightarrow> Some (leadingWidth info) | Some w \<Rightarrow> Some w)
                               (zip (desiredIndents arr) lineInfos)\<rparr>"

definition computeArrays :: "int \<Rightarrow> bool \<Rightarrow> string list \<Rightarrow> LineInfo list \<Rightarrow> Arrays" where
  "computeArrays unit adjust lines lineInfos =
     (let st = docPass unit lines lineInfos;
          arr = (if adjust then applyTextBlockIndentation (textBlocks st) lineInfos unit (arraysOf st)
                 else applyTextBlockOriginalIndent (textBlocks st) lineInfos (arraysOf st))
      in fillNull lineInfos arr)"

definition changeLogs :: "LineInfo list \<Rightarrow> Arrays \<Rightarrow> string list" where
  "changeLogs lineInfos arr =
     concat (map (\<lambda>i. let widthBefore = leadingWidth (lineInfos ! i);
                          widthAfter = (case desiredIndents arr ! i of None \<Rightarrow> widthBefore | Some d \<Rightarrow> d)
                      in if widthBefore \<noteq> widthAfter
                         then [''Line '' @ showNat (i + 1) @ '': '' @ showInt widthBefore @ '' -> '' @ showInt widthAfter]
                         else [])
                 [0..<length lineInfos])"

record FormatOptions =
  indentSize :: jsnum
  adjustTextBlocks :: bool

record FormatResult =
  "output" :: string
  logs :: "string list"
  error :: "string option"

text \<open>The lines that the run renders, with the separators of the switch spacing, and the
  flag that says whether one was inserted.\<close>

definition formatLines :: "string \<Rightarrow> FormatOptions \<Rightarrow> string list \<times> bool" where
  "formatLines input options =
     (let unit = sanitizeIndentSize (indentSize options);
          lines = fst (splitLines input);
          lineInfos = map (\<lambda>line. analyzeLine line unit) lines;
          arr = computeArrays unit (adjustTextBlocks options) lines lineInfos;
          outputLines = map (renderLine lineInfos arr) [0..<length lines]
      in insertSwitchBlankLines outputLines (rawLineMeta arr))"

text \<open>The end of \<^verbatim>\<open>formatText\<close>, from the validation on.\<close>

definition finishFormat ::
  "string \<Rightarrow> string \<Rightarrow> LineInfo list \<Rightarrow> Arrays \<Rightarrow> string list \<times> bool \<Rightarrow> FormatResult" where
  "finishFormat input lineEnding lineInfos arr switchSpacing =
     (let validation = validateOutput lineInfos (fst switchSpacing) (snd switchSpacing) in
      if \<not> fst validation
      then \<lparr>output = input, logs = [], error = Some (snd validation)\<rparr>
      else
        (let logs1 = [''Validation ok: non-leading content unchanged.''] @ changeLogs lineInfos arr;
             logs2 = (if length logs1 = 0 then logs1 @ [''No indentation changes detected.''] else logs1)
         in \<lparr>output = join lineEnding (fst switchSpacing), logs = logs2, error = None\<rparr>))"

definition formatText :: "string \<Rightarrow> FormatOptions \<Rightarrow> FormatResult" where
  "formatText input options =
     (let unit = sanitizeIndentSize (indentSize options);
          lines = fst (splitLines input);
          lineEnding = snd (splitLines input);
          lineInfos = map (\<lambda>line. analyzeLine line unit) lines;
          arr = computeArrays unit (adjustTextBlocks options) lines lineInfos
      in finishFormat input lineEnding lineInfos arr (formatLines input options))"

section \<open>Notions of the statements\<close>

text \<open>
  A separator of the switch spacing goes between two neighbouring lines of a raw block when
  the first is marked as a \<^verbatim>\<open>break\<close> and is not blank, and the second is marked as a
  \<^verbatim>\<open>case\<close> or \<^verbatim>\<open>default\<close> label. \<open>boundaryCount\<close> counts these places in a list of
  rendered lines paired with their marks.
\<close>

definition rawMeta :: "RawLineMeta option \<Rightarrow> bool" where
  "rawMeta m = (case m of None \<Rightarrow> False | Some x \<Rightarrow> isRawBlock x)"

definition breakCaseBoundary :: "string \<times> RawLineMeta option \<Rightarrow> string \<times> RawLineMeta option \<Rightarrow> bool" where
  "breakCaseBoundary a b \<longleftrightarrow>
     (case (snd a, snd b) of
        (Some ma, Some mb) \<Rightarrow> isRawBlock ma \<and> isRawBlock mb \<and> \<not> isBlankOrPrefix (fst a)
                               \<and> isBreak ma \<and> isCaseOrDefault mb
      | _ \<Rightarrow> False)"

fun boundaryCount :: "(string \<times> RawLineMeta option) list \<Rightarrow> nat" where
  "boundaryCount (a # b # r) = (if breakCaseBoundary a b then 1 else 0) + boundaryCount (b # r)"
| "boundaryCount r = 0"

definition firstInsert :: "RawLineMeta option \<Rightarrow> bool \<Rightarrow> bool \<Rightarrow> bool \<Rightarrow> bool" where
  "firstInsert m inRaw pb pbl \<longleftrightarrow>
     (case m of None \<Rightarrow> False | Some x \<Rightarrow> isRawBlock x \<and> isCaseOrDefault x \<and> inRaw \<and> pb \<and> \<not> pbl)"

text \<open>All four arrays have the length \<open>n\<close>.\<close>

definition arrLen :: "'a Arrays_scheme \<Rightarrow> nat \<Rightarrow> bool" where
  "arrLen a n \<longleftrightarrow> length (desiredIndents a) = n \<and> length (indentAfterRazorPrefix a) = n
     \<and> length (razorTextContentIndents a) = n \<and> length (rawLineMeta a) = n"

text \<open>The rendered lines of a run before the switch spacing, with their marks, and the
  number of separators that the switch spacing owes them.\<close>

definition layout :: "string \<Rightarrow> FormatOptions \<Rightarrow> string list \<times> RawLineMeta option list" where
  "layout input options =
     (let unit = sanitizeIndentSize (indentSize options);
          lines = fst (splitLines input);
          lineInfos = map (\<lambda>line. analyzeLine line unit) lines;
          arr = computeArrays unit (adjustTextBlocks options) lines lineInfos
      in (map (renderLine lineInfos arr) [0..<length lines], rawLineMeta arr))"

definition switchSeparators :: "string \<Rightarrow> FormatOptions \<Rightarrow> nat" where
  "switchSeparators input options =
     boundaryCount (zip (fst (layout input options)) (snd (layout input options)))"


text \<open>
  The document pass at line \<open>i\<close>: the state in which the line is processed (after the
  captures that end at it are closed), the counts of the line, whether it is a \<^verbatim>\<open>case\<close> or
  \<^verbatim>\<open>default\<close> label and whether it is the closing-brace line that ends the innermost switch.
\<close>

definition docLineState :: "int \<Rightarrow> string list \<Rightarrow> LineInfo list \<Rightarrow> nat \<Rightarrow> DocState" where
  "docLineState unit lines lineInfos i =
     closeCaptures i (lines ! i) (trimStart (rest (lineInfos ! i))) (docStateAt unit lines lineInfos i)"

definition docLineCounts :: "int \<Rightarrow> string list \<Rightarrow> LineInfo list \<Rightarrow> nat \<Rightarrow> LineCounts" where
  "docLineCounts unit lines lineInfos i =
     lineCounts (lines ! i) (trimStart (rest (lineInfos ! i))) (rest (lineInfos ! i))
       (docLineState unit lines lineInfos i)"

definition docIsLabel :: "string \<Rightarrow> bool" where
  "docIsLabel trimmed \<longleftrightarrow> \<not> isHtmlLine trimmed \<and> caseOrDefaultTest (codePart trimmed)"

definition docClosesSwitch :: "string \<Rightarrow> LineCounts \<Rightarrow> DocState \<Rightarrow> bool" where
  "docClosesSwitch trimmed lc st \<longleftrightarrow>
     closesSwitchAt (\<not> isHtmlLine trimmed \<and> startsWith (codePart trimmed) ''}'') (switchDepths st)
       (max 0 (level st - closeCount lc + openCount lc))"

text \<open>
  Content preservation between the lines of the input and the lines of the output: every
  input line has an output line that is equal to it under \<^verbatim>\<open>normalizeForValidation\<close> (leading
  white space, the spacing after a \<^verbatim>\<open>@:\<close> prefix and the spacing of a switch header are
  normalised), in the same order, and every other output line is blank or a bare \<^verbatim>\<open>@:\<close>.
\<close>

fun preserved :: "string list \<Rightarrow> string list \<Rightarrow> bool" where
  "preserved [] outs = list_all isBlankOrPrefix outs"
| "preserved (i # ins) [] = False"
| "preserved (i # ins) (out # outs) =
     ((normalizeForValidation out = normalizeForValidation i \<and> preserved ins outs)
      \<or> (isBlankOrPrefix out \<and> preserved (i # ins) outs))"


text \<open>
  The lines of a raw block as \<^verbatim>\<open>shouldPreserveRawBlockIndent\<close> reads them. A directive line
  begins with the sigil but not with the text-output prefix; a plain line is not blank and
  does not begin with the sigil. \<open>razorDepthStep\<close> is the brace depth of directive code that
  the function keeps from line to line, and \<open>plainOutside\<close> says that some plain line is
  read while that depth is 0. \<open>mixes\<close> is the mix of directive and plain lines without
  regard to the depth.
\<close>

definition blockRests :: "TextBlock \<Rightarrow> LineInfo list \<Rightarrow> string list" where
  "blockRests block lineInfos = map (\<lambda>lineIndex. rest (lineInfos ! lineIndex)) (blockLines block)"

definition directiveLine :: "string \<Rightarrow> bool" where
  "directiveLine r \<longleftrightarrow> startsWith (trimStart r) ''@'' \<and> \<not> startsWith (trimStart r) ''@:''"

definition plainLine :: "string \<Rightarrow> bool" where
  "plainLine r \<longleftrightarrow> trimStart r \<noteq> [] \<and> \<not> startsWith (trimStart r) ''@''"

definition razorDepthStep :: "int \<Rightarrow> string \<Rightarrow> int" where
  "razorDepthStep depth r =
     (if trimStart r \<noteq> [] \<and> (depth > 0 \<or> directiveLine r)
      then (case countBraces r False of (bo, bc, inBC) \<Rightarrow> max 0 (depth + bo - bc))
      else depth)"

fun plainOutside :: "int \<Rightarrow> string list \<Rightarrow> bool" where
  "plainOutside depth [] = False"
| "plainOutside depth (r # rs) =
     ((plainLine r \<and> depth \<le> 0) \<or> plainOutside (razorDepthStep depth r) rs)"

definition mixesOutside :: "string list \<Rightarrow> bool" where
  "mixesOutside rs \<longleftrightarrow> list_ex directiveLine rs \<and> plainOutside 0 rs"

definition mixes :: "string list \<Rightarrow> bool" where
  "mixes rs \<longleftrightarrow> list_ex directiveLine rs \<and> list_ex plainLine rs"

text \<open>
  The lines of a block as the nested pass reads them, by position in the block. The code of a
  line is what follows its leading white space and an optional \<^verbatim>\<open>@:\<close> prefix; a directive
  line has none. \<open>levelBefore rs k\<close> is the block-local brace level at line \<open>k\<close>: from 0 at
  the first line of the block, every earlier line adds the opening and subtracts the closing
  braces that \<^verbatim>\<open>countBraces\<close> counts on it, and the sum is held at 0 from below after each
  line. The effective level is one less, but not below 0, for a line whose code begins with a
  closing brace.
\<close>

definition lineCode :: "string \<Rightarrow> string" where
  "lineCode r = codePart (trimStart r)"




definition beginsWithClosing :: "string \<Rightarrow> bool" where
  "beginsWithClosing r \<longleftrightarrow> startsWith (lineCode r) ''}''"

definition braceStep :: "string \<Rightarrow> int \<times> bool \<Rightarrow> int \<times> bool" where
  "braceStep r s = (case countBraces r (snd s) of (bo, bc, c) \<Rightarrow> (max 0 (fst s + bo - bc), c))"

definition levelBefore :: "string list \<Rightarrow> nat \<Rightarrow> int" where
  "levelBefore rs k = fst (fold braceStep (take k rs) (0, False))"


definition effectiveLevel :: "string list \<Rightarrow> nat \<Rightarrow> int" where
  "effectiveLevel rs k = max 0 (levelBefore rs k - (if beginsWithClosing (rs ! k) then 1 else 0))"












text \<open>
  A line is blank or a bare \<^verbatim>\<open>@:\<close> exactly when what follows its leading white space is
  \<open>blankish\<close>. \<open>labelMarksOk\<close> says that every line marked as a \<^verbatim>\<open>case\<close> or \<^verbatim>\<open>default\<close>
  label in \<^verbatim>\<open>rawLineMeta\<close> has such a label as its code part.
\<close>

definition blankish :: "string \<Rightarrow> bool" where
  "blankish n \<longleftrightarrow> n = [] \<or> (startsWith n ''@:'' \<and> (\<forall>c \<in> set (drop 2 n). isSpace c))"

definition labelMeta :: "RawLineMeta option \<Rightarrow> bool" where
  "labelMeta m = (case m of None \<Rightarrow> False | Some x \<Rightarrow> isCaseOrDefault x)"

definition labelMarksOk :: "LineInfo list \<Rightarrow> RawLineMeta option list \<Rightarrow> bool" where
  "labelMarksOk lineInfos metas \<longleftrightarrow>
     (\<forall>i < length metas. labelMeta (metas ! i) \<longrightarrow>
        caseOrDefaultTest (codePart (trimStart (rest (lineInfos ! i)))))"







text \<open>
  Documents for the examples: a script block with a switch, a switch nested in a switch, lines
  with a lone carriage return, closings without openings, and two script blocks that mix
  directive and plain lines.
\<close>

definition exampleOptions :: FormatOptions where
  "exampleOptions = \<lparr>indentSize = Finite 4, adjustTextBlocks = True\<rparr>"

definition switchDoc :: "string list" where
  "switchDoc = [''<script>'', ''switch(a){'', ''case 1:'', ''break;'', ''case 2:'', ''break;'', ''}'', ''</script>'']"


definition exampleSwitch :: string where
  "exampleSwitch = join [CHR 0x0A] switchDoc"


definition excessClosings :: "string list" where
  "excessClosings = [''}'', ''</div>'', ''}'']"



definition nestedSwitch :: "string list" where
  "nestedSwitch = [''switch (a) {'', ''case 1:'', ''switch (b) {'', ''case 2:'', ''foo();'', ''}'',
     ''bar();'', ''break;'', ''}'']"

definition nestedInfos :: "LineInfo list" where
  "nestedInfos = map (\<lambda>l. analyzeLine l 4) nestedSwitch"

definition crDocument :: string where
  "crDocument = [CHR ''{'', CHR 0x0A, CHR ''a'', CHR 0x0D]"

definition tabCrLine :: string where
  "tabCrLine = [CHR 0x09, CHR ''a'', CHR 0x0D]"

definition razorCodeBlockDoc :: "string list" where
  "razorCodeBlockDoc = [''<script>'', [CHR ''@'', CHR ''{''], ''var count = 3;'', ''}'', ''</script>'']"

definition razorCodeBlockInfos :: "LineInfo list" where
  "razorCodeBlockInfos = map (\<lambda>l. analyzeLine l 4) razorCodeBlockDoc"

definition mixedBlockDoc :: "string list" where
  "mixedBlockDoc = [''<script>'', ''  foo();'', ''@if (x) {'', ''}'', ''</script>'']"

definition mixedBlockInfos :: "LineInfo list" where
  "mixedBlockInfos = map (\<lambda>l. analyzeLine l 4) mixedBlockDoc"

definition scriptBlock13 :: TextBlock where
  "scriptBlock13 = \<lparr>startLine = 1, endLine = 3, parentLevel = 0, tagName = ''script'', skip = False\<rparr>"











section \<open>Properties of the switch spacing\<close>

lemma insertLoop_Nil: "insertLoop [] ms res ins inRaw pb pbl = (res, ins)"
  by simp

lemma insertLoop_step:
  "insertLoop (l # ls) (m # ms) res ins inRaw pb pbl =
     (if rawMeta m
      then insertLoop ls ms
             (res @ (if firstInsert m inRaw pb pbl then [separatorFor l] else []) @ [l])
             (ins \<or> firstInsert m inRaw pb pbl) True
             (if \<not> isBlankOrPrefix l then isBreak (the m) else inRaw \<and> pb) (isBlankOrPrefix l)
      else insertLoop ls ms (res @ [l]) ins False False False)"
  by (cases m) (auto simp: rawMeta_def firstInsert_def insertsBefore_def Let_def)

lemma firstInsert_raw: "\<not> rawMeta m \<Longrightarrow> \<not> firstInsert m inRaw pb pbl"
  by (cases m) (auto simp: rawMeta_def firstInsert_def)

lemma boundary_raw:
  "rawMeta m \<Longrightarrow> breakCaseBoundary (l, m) (l', m') =
     (\<not> isBlankOrPrefix l \<and> firstInsert m' True (isBreak (the m)) False)"
  by (cases m; cases m') (auto simp: rawMeta_def firstInsert_def breakCaseBoundary_def)

lemma boundary_not_raw: "\<not> rawMeta m \<Longrightarrow> breakCaseBoundary (l, m) (l', m') = False"
  by (cases m; cases m') (auto simp: rawMeta_def breakCaseBoundary_def)

lemma firstInsert_blank: "firstInsert m' r b True = False"
  by (cases m') (auto simp: firstInsert_def)

lemma firstInsert_reset: "firstInsert m' False b c = False"
  by (cases m') (auto simp: firstInsert_def)

lemma insertLoop_length_gen:
  "length ms = length ls \<Longrightarrow>
   length (fst (insertLoop (l # ls) (m # ms) res ins inRaw pb pbl)) =
     length res + (if firstInsert m inRaw pb pbl then 1 else 0) + 1 + length ls
       + boundaryCount (zip (l # ls) (m # ms))"
proof (induction ls arbitrary: l m ms res ins inRaw pb pbl)
  case Nil
  then show ?case
    by (simp add: insertLoop_step insertLoop_Nil firstInsert_raw del: insertLoop.simps)
next
  case (Cons l' ls)
  then obtain m' ms' where ms: "ms = m' # ms'" and len: "length ms' = length ls"
    by (cases ms) auto
  note IH = Cons.IH [OF len]
  show ?case
  proof (cases "rawMeta m")
    case True
    show ?thesis
      unfolding ms
      by (subst insertLoop_step) (simp add: True IH boundary_raw firstInsert_blank del: insertLoop.simps)
  next
    case False
    have nf: "\<not> firstInsert m inRaw pb pbl"
      using False by (cases m) (auto simp: rawMeta_def firstInsert_def)
    show ?thesis
      unfolding ms
      by (subst insertLoop_step)
         (simp add: False nf IH boundary_not_raw firstInsert_reset del: insertLoop.simps)
  qed
qed

lemma insertLoop_flag_gen:
  "length ms = length ls \<Longrightarrow>
   snd (insertLoop (l # ls) (m # ms) res ins inRaw pb pbl) =
     (ins \<or> firstInsert m inRaw pb pbl \<or> boundaryCount (zip (l # ls) (m # ms)) > 0)"
proof (induction ls arbitrary: l m ms res ins inRaw pb pbl)
  case Nil
  then show ?case
    by (simp add: insertLoop_step insertLoop_Nil firstInsert_raw del: insertLoop.simps)
next
  case (Cons l' ls)
  then obtain m' ms' where ms: "ms = m' # ms'" and len: "length ms' = length ls"
    by (cases ms) auto
  note IH = Cons.IH [OF len]
  show ?case
  proof (cases "rawMeta m")
    case True
    show ?thesis
      unfolding ms
      by (subst insertLoop_step) (auto simp add: True IH boundary_raw firstInsert_blank simp del: insertLoop.simps)
  next
    case False
    have nf: "\<not> firstInsert m inRaw pb pbl"
      using False by (cases m) (auto simp: rawMeta_def firstInsert_def)
    show ?thesis
      unfolding ms
      by (subst insertLoop_step)
         (auto simp add: False nf IH boundary_not_raw firstInsert_reset simp del: insertLoop.simps)
  qed
qed

lemma insertSwitchBlankLines_length:
  assumes "length metas = length ls"
  shows "length (fst (insertSwitchBlankLines ls metas)) = length ls + boundaryCount (zip ls metas)"
proof (cases ls)
  case Nil
  then show ?thesis by (simp add: insertSwitchBlankLines_def)
next
  case (Cons l ls')
  with assms obtain m ms where "metas = m # ms" "length ms = length ls'"
    by (cases metas) auto
  then show ?thesis
    using insertLoop_length_gen [of ms ls' l m "[]" False False False False] Cons
    by (cases m) (simp_all add: insertSwitchBlankLines_def firstInsert_def del: insertLoop.simps)
qed

lemma insertSwitchBlankLines_flag:
  assumes "length metas = length ls"
  shows "snd (insertSwitchBlankLines ls metas) = (boundaryCount (zip ls metas) > 0)"
proof (cases ls)
  case Nil
  then show ?thesis by (simp add: insertSwitchBlankLines_def)
next
  case (Cons l ls')
  with assms obtain m ms where "metas = m # ms" "length ms = length ls'"
    by (cases metas) auto
  then show ?thesis
    using insertLoop_flag_gen [of ms ls' l m "[]" False False False False] Cons
    by (cases m) (simp_all add: insertSwitchBlankLines_def firstInsert_def del: insertLoop.simps)
qed


section \<open>The arrays keep their length\<close>

lemma closeCurrent_arrays [simp]:
  "desiredIndents (closeCurrent i st) = desiredIndents st"
  "indentAfterRazorPrefix (closeCurrent i st) = indentAfterRazorPrefix st"
  "razorTextContentIndents (closeCurrent i st) = razorTextContentIndents st"
  "rawLineMeta (closeCurrent i st) = rawLineMeta st"
  "level (closeCurrent i st) = level st"
  by (simp_all add: closeCurrent_def split: option.splits)

lemma closeCaptures_arrays [simp]:
  "desiredIndents (closeCaptures i line trimmed st) = desiredIndents st"
  "indentAfterRazorPrefix (closeCaptures i line trimmed st) = indentAfterRazorPrefix st"
  "razorTextContentIndents (closeCaptures i line trimmed st) = razorTextContentIndents st"
  "rawLineMeta (closeCaptures i line trimmed st) = rawLineMeta st"
  "level (closeCaptures i line trimmed st) = level st"
  by (simp_all add: closeCaptures_def Let_def)

lemma openCaptures_arrays [simp]:
  "desiredIndents (openCaptures i trimmed st) = desiredIndents st"
  "indentAfterRazorPrefix (openCaptures i trimmed st) = indentAfterRazorPrefix st"
  "razorTextContentIndents (openCaptures i trimmed st) = razorTextContentIndents st"
  "rawLineMeta (openCaptures i trimmed st) = rawLineMeta st"
  "level (openCaptures i trimmed st) = level st"
  by (simp_all add: openCaptures_def Let_def)

lemma docAdvance_arrays [simp]:
  "desiredIndents (docAdvance trimmed lc st) = desiredIndents st"
  "indentAfterRazorPrefix (docAdvance trimmed lc st) = indentAfterRazorPrefix st"
  "razorTextContentIndents (docAdvance trimmed lc st) = razorTextContentIndents st"
  "rawLineMeta (docAdvance trimmed lc st) = rawLineMeta st"
  by (simp_all add: docAdvance_def Let_def split: prod.splits)

lemma docAdvance_level:
  "level (docAdvance trimmed lc st) = max 0 (level st - closeCount lc + openCount lc)"
  by (simp add: docAdvance_def Let_def split: prod.splits)

lemma docStep_desired:
  "desiredIndents (docStep unit lines lineInfos i st) =
     (desiredIndents st)[i :=
        (let trimmed = trimStart (rest (lineInfos ! i));
             st2 = closeCaptures i (lines ! i) trimmed st
         in if inTextBlock st2 \<or> inRawBlock st2 then None
            else Some (docLineIndent unit trimmed
                   (lineCounts (lines ! i) trimmed (rest (lineInfos ! i)) st2) st2))]"
  by (simp add: docStep_def Let_def)

lemma docStep_others [simp]:
  "indentAfterRazorPrefix (docStep unit lines lineInfos i st) = indentAfterRazorPrefix st"
  "razorTextContentIndents (docStep unit lines lineInfos i st) = razorTextContentIndents st"
  "rawLineMeta (docStep unit lines lineInfos i st) = rawLineMeta st"
  by (simp_all add: docStep_def Let_def)

lemma docStep_arrLen: "arrLen (docStep unit lines lineInfos i st) n = arrLen st n"
  by (simp add: arrLen_def docStep_desired)

lemma docStateAt_Suc:
  "docStateAt unit lines lineInfos (Suc k) =
     docStep unit lines lineInfos k (docStateAt unit lines lineInfos k)"
  by (simp add: docStateAt_def)

lemma docStateAt_arrLen: "arrLen (docStateAt unit lines lineInfos k) (length lines)"
proof (induction k)
  case 0
  show ?case by (simp add: docStateAt_def initialDocState_def arrLen_def)
next
  case (Suc k)
  then show ?case by (simp add: docStateAt_Suc docStep_arrLen)
qed

lemma docPass_arrays:
  "arraysOf (docPass unit lines lineInfos) = arraysOf (docStateAt unit lines lineInfos (length lines))"
  by (simp add: docPass_def arraysOf_def Let_def split: option.splits)

lemma arrLen_arraysOf [simp]: "arrLen (arraysOf a) n = arrLen a n"
  by (simp add: arrLen_def arraysOf_def)

lemma docPass_arrLen: "arrLen (docPass unit lines lineInfos) (length lines)"
proof -
  have "arrLen (arraysOf (docPass unit lines lineInfos)) (length lines)"
    unfolding docPass_arrays by (simp add: docStateAt_arrLen)
  then show ?thesis by simp
qed

lemma fold_update_arrLen:
  "arrLen (fold (\<lambda>lineIndex a. a\<lparr>desiredIndents := (desiredIndents a)[lineIndex := f lineIndex]\<rparr>) ks arr) n
     = arrLen arr n"
  by (induction ks arbitrary: arr) (simp_all add: arrLen_def)

lemma applySingle_arrLen:
  "arrLen (applySingleTextBlockOriginalIndent block lineInfos arr) n = arrLen arr n"
  unfolding applySingleTextBlockOriginalIndent_def by (rule fold_update_arrLen)

lemma applyOriginal_arrLen:
  "arrLen (applyTextBlockOriginalIndent blocks lineInfos arr) n = arrLen arr n"
  unfolding applyTextBlockOriginalIndent_def
  by (induction blocks arbitrary: arr) (simp_all add: applySingle_arrLen)

lemma blockStep_arrLen:
  "arrLen (blockStep unit lineInfos isRaw base lineIndex st) n = arrLen st n"
  by (simp add: blockStep_def Let_def arrLen_def split: prod.splits)

lemma fold_blockStep_arrLen:
  "arrLen (fold (blockStep unit lineInfos isRaw base) ks st) n = arrLen st n"
  by (induction ks arbitrary: st) (simp_all add: blockStep_arrLen)

lemma initialBlockState_arrLen [simp]: "arrLen (initialBlockState arr) n = arrLen arr n"
  by (simp add: arrLen_def initialBlockState_def)

lemma applyBlock_arrLen: "arrLen (applyBlock unit lineInfos block arr) n = arrLen arr n"
  by (simp add: applyBlock_def applySingle_arrLen blockStateAt_def Let_def fold_blockStep_arrLen)

lemma applyIndentation_arrLen:
  "arrLen (applyTextBlockIndentation blocks lineInfos unit arr) n = arrLen arr n"
  unfolding applyTextBlockIndentation_def
  by (induction blocks arbitrary: arr) (simp_all add: applyBlock_arrLen)

lemma fillNull_arrLen:
  "length lineInfos = n \<Longrightarrow> arrLen arr n \<Longrightarrow> arrLen (fillNull lineInfos arr) n"
  by (simp add: fillNull_def arrLen_def)

lemma computeArrays_arrLen:
  "length lineInfos = length lines \<Longrightarrow>
   arrLen (computeArrays unit adjust lines lineInfos) (length lines)"
  by (auto simp: computeArrays_def Let_def applyIndentation_arrLen
      applyOriginal_arrLen docPass_arrLen intro!: fillNull_arrLen)


lemma layout_lengths:
  "length (fst (layout input options)) = length (fst (splitLines input))"
  "length (snd (layout input options)) = length (fst (splitLines input))"
  using computeArrays_arrLen [of "map (\<lambda>line. analyzeLine line (sanitizeIndentSize (indentSize options)))
       (fst (splitLines input))" "fst (splitLines input)" "sanitizeIndentSize (indentSize options)"
       "adjustTextBlocks options"]
  by (simp_all add: layout_def Let_def arrLen_def)

lemma formatLines_layout:
  "formatLines input options =
     insertSwitchBlankLines (fst (layout input options)) (snd (layout input options))"
  by (simp add: formatLines_def layout_def Let_def)

lemma formatText_output_ok:
  "error (formatText input options) = None \<Longrightarrow>
   output (formatText input options) = join (snd (splitLines input)) (fst (formatLines input options))"
  by (simp add: formatText_def finishFormat_def Let_def split: if_splits)

text \<open>
  C3. When \<^verbatim>\<open>formatText\<close> succeeds, its output is the join of as many lines as the input
  has plus the number of separators of the switch spacing, one for each place where a
  \<^verbatim>\<open>break\<close> line of a raw block is directly followed by a \<^verbatim>\<open>case\<close> or \<^verbatim>\<open>default\<close> label;
  where there is no such place, the two line counts are equal.
\<close>

theorem line_count_plus_separators:
  assumes "error (formatText input options) = None"
  shows "output (formatText input options)
           = join (snd (splitLines input)) (fst (formatLines input options))
         \<and> length (fst (formatLines input options))
           = length (fst (splitLines input)) + switchSeparators input options
         \<and> (switchSeparators input options = 0 \<longrightarrow>
              length (fst (formatLines input options)) = length (fst (splitLines input)))"
proof -
  have len: "length (snd (layout input options)) = length (fst (layout input options))"
    by (simp add: layout_lengths)
  have "length (fst (formatLines input options))
          = length (fst (splitLines input)) + switchSeparators input options"
    unfolding formatLines_layout switchSeparators_def
    using insertSwitchBlankLines_length [OF len] by (simp add: layout_lengths)
  with formatText_output_ok [OF assms] show ?thesis by simp
qed

theorem line_count_plus_separators_witness:
  "error (formatText exampleSwitch exampleOptions) = None
   \<and> switchSeparators exampleSwitch exampleOptions = 1
   \<and> length (fst (splitLines exampleSwitch)) = 8
   \<and> length (fst (formatLines exampleSwitch exampleOptions)) = 9"
proof -
  have e: "error (formatText exampleSwitch exampleOptions) = None" by code_simp
  have s: "switchSeparators exampleSwitch exampleOptions = 1" by code_simp
  have n: "length (fst (splitLines exampleSwitch)) = 8" by code_simp
  show ?thesis
    using line_count_plus_separators [OF e] e s n by simp
qed


section \<open>Validation failure\<close>











text \<open>The part of \<^verbatim>\<open>formatText\<close> from the validation on is \<open>finishFormat\<close>.\<close>

lemma formatText_finish:
  "formatText input options =
     finishFormat input (snd (splitLines input))
       (map (\<lambda>line. analyzeLine line (sanitizeIndentSize (indentSize options))) (fst (splitLines input)))
       (computeArrays (sanitizeIndentSize (indentSize options)) (adjustTextBlocks options)
          (fst (splitLines input))
          (map (\<lambda>line. analyzeLine line (sanitizeIndentSize (indentSize options)))
             (fst (splitLines input))))
       (formatLines input options)"
  by (simp add: formatText_def Let_def)





section \<open>Nesting levels\<close>

lemma docStep_level:
  "level (docStep unit lines lineInfos i st) =
     (let trimmed = trimStart (rest (lineInfos ! i));
          st2 = closeCaptures i (lines ! i) trimmed st
      in if inTextBlock st2 \<or> inRawBlock st2 then level st
         else max 0 (level st - closeCount (lineCounts (lines ! i) trimmed (rest (lineInfos ! i)) st2)
                      + openCount (lineCounts (lines ! i) trimmed (rest (lineInfos ! i)) st2)))"
  by (simp add: docStep_def Let_def docAdvance_level)

lemma docStateAt_level_nonneg: "0 \<le> level (docStateAt unit lines lineInfos k)"
proof (induction k)
  case 0
  show ?case by (simp add: docStateAt_def initialDocState_def)
next
  case (Suc k)
  then show ?case by (simp add: docStateAt_Suc docStep_level Let_def)
qed

lemma blockNextLevel_nonneg: "0 \<le> blockNextLevel r st"
  by (simp add: blockNextLevel_def split: prod.splits)

lemma blockStep_level:
  "level (blockStep unit lineInfos isRaw base lineIndex st) =
     (if rest (lineInfos ! lineIndex) = [] then level st
      else blockNextLevel (rest (lineInfos ! lineIndex)) st)"
  by (simp add: blockStep_def Let_def split: prod.splits)

lemma blockStep_depth_nonneg:
  "0 \<le> razorBraceDepth st \<Longrightarrow> 0 \<le> razorBraceDepth (blockStep unit lineInfos isRaw base lineIndex st)"
  by (simp add: blockStep_def Let_def split: prod.splits)

lemma fold_blockStep_nonneg:
  "0 \<le> level st \<Longrightarrow> 0 \<le> razorBraceDepth st \<Longrightarrow>
   0 \<le> level (fold (blockStep unit lineInfos isRaw base) ks st)
   \<and> 0 \<le> razorBraceDepth (fold (blockStep unit lineInfos isRaw base) ks st)"
proof (induction ks arbitrary: st)
  case Nil
  then show ?case by simp
next
  case (Cons k ks)
  have "0 \<le> level (blockStep unit lineInfos isRaw base k st)"
    using Cons.prems(1) by (simp add: blockStep_level blockNextLevel_nonneg)
  moreover have "0 \<le> razorBraceDepth (blockStep unit lineInfos isRaw base k st)"
    using Cons.prems(2) by (rule blockStep_depth_nonneg)
  ultimately show ?case using Cons.IH by simp
qed

text \<open>
  C8. After any number of lines of the document pass, and after any number of lines of the
  nested pass over any block, the running nesting level is at least 0; so is the depth of
  directive braces that the nested pass keeps.
\<close>

theorem nesting_level_never_negative:
  assumes "k \<le> length lines"
  shows "0 \<le> level (docStateAt unit lines lineInfos k)
         \<and> 0 \<le> level (blockStateAt unit lineInfos block arr j)
         \<and> 0 \<le> razorBraceDepth (blockStateAt unit lineInfos block arr j)"
proof -
  have "0 \<le> level (initialBlockState arr)" "0 \<le> razorBraceDepth (initialBlockState arr)"
    by (simp_all add: initialBlockState_def)
  then show ?thesis
    using docStateAt_level_nonneg [of unit lines lineInfos k]
    by (simp add: blockStateAt_def Let_def fold_blockStep_nonneg)
qed

theorem nesting_level_never_negative_witness:
  "(3::nat) \<le> length excessClosings
   \<and> level (docStateAt 4 excessClosings (map (\<lambda>l. analyzeLine l 4) excessClosings) 3) = 0"
proof -
  have l: "(3::nat) \<le> length excessClosings" by code_simp
  have v: "level (docStateAt 4 excessClosings (map (\<lambda>l. analyzeLine l 4) excessClosings) 3) \<le> 0"
    by code_simp
  show ?thesis
    using nesting_level_never_negative [OF l, of 4 "map (\<lambda>l. analyzeLine l 4) excessClosings"] l v
    by simp
qed


section \<open>The width assigned by the document pass\<close>

lemma docStateAt_desired_later:
  "i < k \<Longrightarrow> desiredIndents (docStateAt unit lines lineInfos k) ! i
     = desiredIndents (docStateAt unit lines lineInfos (Suc i)) ! i"
proof (induction k)
  case 0
  then show ?case by simp
next
  case (Suc k)
  show ?case
  proof (cases "i = k")
    case True
    then show ?thesis by simp
  next
    case False
    with Suc have "i < k" by simp
    with Suc.IH False show ?thesis
      by (simp add: docStateAt_Suc [of unit lines lineInfos k] docStep_desired)
  qed
qed

lemma docPass_desired: "desiredIndents (docPass unit lines lineInfos)
    = desiredIndents (docStateAt unit lines lineInfos (length lines))"
  by (simp add: docPass_def Let_def split: option.splits)

text \<open>
  The width that the document pass assigns. A line inside a capture gets no width. Every
  other line \<open>i\<close> gets \<open>max 0 (level - leadingCloseCount) * unit\<close>, plus one unit exactly when
  a switch body is open at the current level, a level of a \<^verbatim>\<open>case\<close> or \<^verbatim>\<open>default\<close> label
  is on record in \<^verbatim>\<open>caseIndentDepth\<close>, and the line is neither such a label nor the
  closing-brace line that ends the innermost switch. There is one record for all switch
  bodies: it holds the level of the most recent label and is cleared when the level falls
  below it.
\<close>

lemma document_pass_width:
  assumes "i < length lines"
  shows "desiredIndents (docPass unit lines lineInfos) ! i =
     (let trimmed = trimStart (rest (lineInfos ! i));
          st = docLineState unit lines lineInfos i;
          lc = docLineCounts unit lines lineInfos i
      in if inTextBlock st \<or> inRawBlock st then None
         else Some (max 0 (level st - leadingCloseCount lc) * unit +
                (if switchOpen (switchDepths st) (level st) \<and> caseIndentDepth st \<noteq> None
                    \<and> \<not> docIsLabel trimmed \<and> \<not> docClosesSwitch trimmed lc st
                 then unit else 0)))"
proof -
  have len: "i < length (desiredIndents (docStateAt unit lines lineInfos i))"
    using docStateAt_arrLen [of unit lines lineInfos i] assms by (simp add: arrLen_def)
  have "desiredIndents (docPass unit lines lineInfos) ! i
          = desiredIndents (docStateAt unit lines lineInfos (Suc i)) ! i"
    unfolding docPass_desired using assms by (rule docStateAt_desired_later)
  also have "\<dots> = (let trimmed = trimStart (rest (lineInfos ! i));
             st2 = closeCaptures i (lines ! i) trimmed (docStateAt unit lines lineInfos i)
         in if inTextBlock st2 \<or> inRawBlock st2 then None
            else Some (docLineIndent unit trimmed
                   (lineCounts (lines ! i) trimmed (rest (lineInfos ! i)) st2) st2))"
    using len by (simp add: docStateAt_Suc docStep_desired)
  finally show ?thesis
    by (simp add: Let_def docLineState_def docLineCounts_def docLineIndent_def switchExtra_def
        docIsLabel_def docClosesSwitch_def)
qed


lemma document_pass_width_example:
  "(4::nat) < length nestedSwitch
   \<and> desiredIndents (docPass 4 nestedSwitch nestedInfos) ! 4 = Some 12"
proof -
  have l: "(4::nat) < length nestedSwitch" by code_simp
  have "desiredIndents (docPass 4 nestedSwitch nestedInfos) ! 4 = Some 12"
    unfolding document_pass_width [OF l] by code_simp
  with l show ?thesis by simp
qed

text \<open>
  C5. The rule of the claim fails after a nested switch. In \<open>nestedSwitch\<close> the label of
  line 1 is seen in the body of the outer switch; at line 6 that body is open again (the
  same switch is on the stack, at the same level), and the line is neither a label nor a
  closing-brace line, so the claim gives it two units. The label of the inner switch has
  replaced the record of the outer label, the end of the inner switch has cleared it, and
  the pass gives line 6 one unit.
\<close>

theorem nested_switch_loses_extra_unit:
  "switchDepths (docLineState 4 nestedSwitch nestedInfos 1) = [1]
   \<and> level (docLineState 4 nestedSwitch nestedInfos 1) = 1
   \<and> docIsLabel (trimStart (rest (nestedInfos ! 1)))
   \<and> switchDepths (docLineState 4 nestedSwitch nestedInfos 6) = [1]
   \<and> level (docLineState 4 nestedSwitch nestedInfos 6) = 1
   \<and> switchOpen (switchDepths (docLineState 4 nestedSwitch nestedInfos 6))
        (level (docLineState 4 nestedSwitch nestedInfos 6))
   \<and> leadingCloseCount (docLineCounts 4 nestedSwitch nestedInfos 6) = 0
   \<and> \<not> docIsLabel (trimStart (rest (nestedInfos ! 6)))
   \<and> \<not> docClosesSwitch (trimStart (rest (nestedInfos ! 6)))
         (docLineCounts 4 nestedSwitch nestedInfos 6) (docLineState 4 nestedSwitch nestedInfos 6)
   \<and> desiredIndents (docPass 4 nestedSwitch nestedInfos) ! 6 = Some 4
   \<and> desiredIndents (docPass 4 nestedSwitch nestedInfos) ! 6 \<noteq> Some (1 * 4 + 4)
   \<and> fst (formatLines (join [CHR 0x0A] nestedSwitch) exampleOptions)
       = [''switch (a) {'', ''    case 1:'', ''        switch (b) {'', ''        case 2:'',
          ''            foo();'', ''    }'', ''    bar();'', ''    break;'', ''}'']"
  by code_simp

section \<open>Content preservation\<close>

lemma isSpace_space [simp]: "isSpace (CHR '' '')"
  by (simp add: isSpace_def)

lemma dropWhile_spaces [simp]: "dropWhile isSpace (spaces n @ s) = dropWhile isSpace s"
  by (simp add: spaces_def dropWhile_append3 dropWhile_append)

lemma dropWhile_idem [simp]: "dropWhile P (dropWhile P s) = dropWhile P s"
  by (induction s) auto

lemma normalize_dropWhile [simp]:
  "normalizeForValidation (dropWhile isSpace s) = normalizeForValidation s"
  by (simp add: normalizeForValidation_def)

lemma normalize_spaces [simp]: "normalizeForValidation (spaces n @ s) = normalizeForValidation s"
  by (simp add: normalizeForValidation_def)

lemma normalize_makeIndentedLine [simp]:
  "normalizeForValidation (makeIndentedLine r w) = normalizeForValidation r"
  by (simp add: makeIndentedLine_def)

lemma normalize_rest:
  "normalizeForValidation (rest (analyzeLine line unit)) = normalizeForValidation line"
  by (simp add: analyzeLine_def matchIndent_def)

lemma original_analyzeLine [simp]: "original (analyzeLine line unit) = line"
  by (simp add: analyzeLine_def split: option.splits)

lemma set_trim: "set (trim s) \<subseteq> set s"
proof -
  have "set (trimEnd t) \<subseteq> set t" for t
    using set_dropWhileD [of _ isSpace "rev t"] by (auto simp: trimEnd_def)
  moreover have "set (trimStart s) \<subseteq> set s"
    using set_dropWhileD [of _ isSpace s] by (auto simp: trimStart_def)
  ultimately show ?thesis unfolding trim_def by blast
qed

lemma trimEnd_idem: "trimEnd (trimEnd s) = trimEnd s"
  by (simp add: trimEnd_def)

lemma dropWhile_rev_keeps_head:
  assumes "\<not> P a"
  shows "\<exists>w. dropWhile P (rev (a # t)) = w @ [a]"
  using assms by (simp add: dropWhile_append)

lemma dropWhile_rev_dropWhile:
  "dropWhile P (rev (dropWhile P (rev (dropWhile P s)))) = rev (dropWhile P (rev (dropWhile P s)))"
proof (cases "dropWhile P s")
  case Nil
  show ?thesis unfolding Nil by simp
next
  case (Cons a t)
  then have na: "\<not> P a" using hd_dropWhile [of P s] by auto
  from dropWhile_rev_keeps_head [of P a t] na obtain w where
    w: "dropWhile P (rev (a # t)) = w @ [a]" by blast
  show ?thesis unfolding Cons w using na by simp
qed

lemma trim_idem: "trim (trim s) = trim s"
  by (simp add: trim_def trimEnd_def trimStart_def dropWhile_rev_dropWhile)


lemma matchSwitchHeader_Some:
  assumes "matchSwitchHeader s = Some inner"
  shows "startsWith s ''switch''" "\<forall>c \<in> set inner. \<not> isLineTerminator c"
  using assms by (auto simp: matchSwitchHeader_def Let_def split: if_splits)

lemma not_isSpace_literals [simp]:
  "\<not> isSpace (CHR ''('')" "\<not> isSpace (CHR '')'')" "\<not> isSpace (CHR ''{'')"
  "\<not> isSpace (CHR ''s'')" "\<not> isSpace (CHR ''@'')" "\<not> isSpace (CHR '':'')"
  by (simp_all add: isSpace_def)

lemma matchSwitchHeader_switchHeader:
  assumes "\<forall>c \<in> set inner. \<not> isLineTerminator c"
  shows "matchSwitchHeader (switchHeader inner) = Some (trim inner)"
proof -
  have "\<forall>c \<in> set (trim inner). \<not> isLineTerminator c"
    using assms set_trim [of inner] by blast
  then show ?thesis
    by (simp add: matchSwitchHeader_def switchHeader_def Let_def)
qed

lemma switchHeader_trim: "switchHeader (trim inner) = switchHeader inner"
  by (simp add: switchHeader_def trim_idem)

lemma normalizeSwitchSpacing_idem:
  "normalizeSwitchSpacing (normalizeSwitchSpacing s) = normalizeSwitchSpacing s"
proof (cases "matchSwitchHeader s")
  case None
  then show ?thesis by (simp add: normalizeSwitchSpacing_def)
next
  case (Some inner)
  from matchSwitchHeader_Some(2) [OF Some] show ?thesis
    by (simp add: normalizeSwitchSpacing_def Some matchSwitchHeader_switchHeader switchHeader_trim)
qed

lemma startsWith_switch_not_prefix:
  "startsWith s ''switch'' \<Longrightarrow> \<not> startsWith s ''@:''"
  by (cases s) auto

lemma startsWith_switch_dropWhile:
  "startsWith s ''switch'' \<Longrightarrow> dropWhile isSpace s = s"
  by (cases s) auto

lemma normalize_switch_line:
  assumes "matchSwitchHeader s = Some inner"
  shows "normalizeForValidation s = switchHeader inner"
  using assms matchSwitchHeader_Some(1) [OF assms]
  by (simp add: normalizeForValidation_def Let_def startsWith_switch_dropWhile
      startsWith_switch_not_prefix normalizeSwitchSpacing_def)

lemma normalize_switchHeader:
  assumes "\<forall>c \<in> set inner. \<not> isLineTerminator c"
  shows "normalizeForValidation (switchHeader inner) = switchHeader inner"
  using normalize_switch_line [OF matchSwitchHeader_switchHeader [OF assms]]
  by (simp add: switchHeader_trim)

lemma normalize_formatRawLineContent [simp]:
  "normalizeForValidation (formatRawLineContent r) = normalizeForValidation r"
proof (cases "matchSwitchHeader (trimStart r)")
  case None
  then show ?thesis by (simp add: formatRawLineContent_def)
next
  case (Some inner)
  have "normalizeForValidation r = normalizeForValidation (trimStart r)"
    by (simp add: trimStart_def)
  also have "\<dots> = switchHeader inner" using Some by (rule normalize_switch_line)
  finally show ?thesis
    using normalize_switchHeader [OF matchSwitchHeader_Some(2) [OF Some]]
    by (simp add: formatRawLineContent_def Some)
qed

lemma startsWith_prefix_decompose: "startsWith s ''@:'' \<Longrightarrow> \<exists>t. s = ''@:'' @ t"
  by (cases s; cases "tl s") auto

lemma matchSwitchHeader_prefix: "matchSwitchHeader (''@:'' @ t) = None"
  by (simp add: matchSwitchHeader_def)

lemma normalize_prefix_line:
  "normalizeForValidation (CHR ''@'' # CHR '':'' # t) = CHR ''@'' # CHR '':'' # dropWhile isSpace t"
  by (simp add: normalizeForValidation_def normalizeSwitchSpacing_def matchSwitchHeader_def)

lemma normalize_makeRazorTextIndentedLine [simp]:
  "normalizeForValidation (makeRazorTextIndentedLine r w c) = normalizeForValidation r"
proof (cases "\<not> startsWith r ''@:'' \<or> (\<exists>x \<in> set (dropWhile isSpace (drop 2 r)). isLineTerminator x)")
  case True
  then show ?thesis by (auto simp: makeRazorTextIndentedLine_def Let_def)
next
  case False
  then obtain t where r: "r = ''@:'' @ t" using startsWith_prefix_decompose by blast
  define lineIndent where "lineIndent = (if w > 0 then spaces w else [])"
  have li: "normalizeForValidation (lineIndent @ x) = normalizeForValidation x" for x
    by (simp add: lineIndent_def)
  have out: "makeRazorTextIndentedLine r w c =
      lineIndent @ (if dropWhile isSpace t = [] then ''@:''
                    else ''@:'' @ ('' '' @ spaces c @ dropWhile isSpace t))"
    using False by (simp add: makeRazorTextIndentedLine_def Let_def r lineIndent_def trimStart_def)
  show ?thesis
    unfolding out li
    by (cases "dropWhile isSpace t = []") (simp_all add: r normalize_prefix_line del: dropWhile_eq_Nil_conv)
qed

lemma normalize_renderLine:
  assumes "i < length lines"
  shows "normalizeForValidation (renderLine (map (\<lambda>line. analyzeLine line unit) lines) arr i)
     = normalizeForValidation (lines ! i)"
  using assms by (simp add: renderLine_def Let_def normalize_rest)


lemma preserved_blank_cons:
  "isBlankOrPrefix s \<Longrightarrow> preserved ins outs \<Longrightarrow> preserved ins (s # outs)"
  by (cases ins) simp_all

lemma preserved_blanks_append:
  "list_all isBlankOrPrefix bs \<Longrightarrow> preserved c d \<Longrightarrow> preserved c (bs @ d)"
  by (induction bs) (simp_all add: preserved_blank_cons)

lemma preserved_append:
  "preserved a b \<Longrightarrow> preserved c d \<Longrightarrow> preserved (a @ c) (b @ d)"
proof (induction a b rule: preserved.induct)
  case (1 outs)
  then show ?case by (simp add: preserved_blanks_append)
next
  case (2 i ins)
  then show ?case by simp
next
  case (3 i ins out outs)
  then show ?case by auto
qed

lemma trim_prefix_only: "\<forall>c \<in> set ws. isSpace c \<Longrightarrow> trim (ws @ ''@:'') = ''@:''"
  by (simp add: trim_def trimStart_def trimEnd_def dropWhile_append)

lemma isBlankOrPrefix_separatorFor: "isBlankOrPrefix (separatorFor l)"
proof -
  have "\<forall>c \<in> set (takeWhile isSpace l). isSpace c"
    by (auto dest: set_takeWhileD)
  then show ?thesis
    by (simp add: isBlankOrPrefix_def separatorFor_def trim_prefix_only)
       (simp add: trim_def trimStart_def trimEnd_def)
qed

lemma insertLoop_preserved:
  "length ms = length ls \<Longrightarrow>
   list_all2 (\<lambda>orig l. normalizeForValidation l = normalizeForValidation orig) origs ls \<Longrightarrow>
   preserved seen res \<Longrightarrow>
   preserved (seen @ origs) (fst (insertLoop ls ms res ins inRaw pb pbl))"
proof (induction ls arbitrary: ms origs seen res ins inRaw pb pbl)
  case Nil
  then show ?case by (simp add: insertLoop_Nil)
next
  case (Cons l ls)
  from Cons.prems(1) obtain m ms' where ms: "ms = m # ms'" and len: "length ms' = length ls"
    by (cases ms) auto
  from Cons.prems(2) obtain orig origs' where
    origs: "origs = orig # origs'" and
    eq: "normalizeForValidation l = normalizeForValidation orig" and
    all: "list_all2 (\<lambda>orig l. normalizeForValidation l = normalizeForValidation orig) origs' ls"
    by (cases origs) auto
  have one: "preserved [orig] (sep @ [l])" if "sep = [] \<or> sep = [separatorFor l]" for sep
    using that eq isBlankOrPrefix_separatorFor [of l] by auto
  have step: "preserved (seen @ [orig]) (res @ sep @ [l])" if "sep = [] \<or> sep = [separatorFor l]" for sep
    using preserved_append [OF Cons.prems(3) one [OF that]] by simp
  show ?case
  proof (cases "rawMeta m")
    case True
    have "preserved ((seen @ [orig]) @ origs')
            (fst (insertLoop ls ms'
               (res @ (if firstInsert m inRaw pb pbl then [separatorFor l] else []) @ [l])
               (ins \<or> firstInsert m inRaw pb pbl) True
               (if \<not> isBlankOrPrefix l then isBreak (the m) else inRaw \<and> pb) (isBlankOrPrefix l)))"
      by (rule Cons.IH [OF len all step]) simp
    then show ?thesis
      unfolding ms origs by (subst insertLoop_step) (simp add: True del: insertLoop.simps)
  next
    case False
    have "preserved ((seen @ [orig]) @ origs')
            (fst (insertLoop ls ms' (res @ [] @ [l]) ins False False False))"
      by (rule Cons.IH [OF len all step]) simp
    then show ?thesis
      unfolding ms origs by (subst insertLoop_step) (simp add: False del: insertLoop.simps)
  qed
qed

lemma formatLines_preserved:
  "preserved (fst (splitLines input)) (fst (formatLines input options))"
proof -
  define lines where "lines = fst (splitLines input)"
  define unit where "unit = sanitizeIndentSize (indentSize options)"
  define arr where "arr = computeArrays unit (adjustTextBlocks options) lines
     (map (\<lambda>line. analyzeLine line unit) lines)"
  have lay: "fst (layout input options)
      = map (renderLine (map (\<lambda>line. analyzeLine line unit) lines) arr) [0..<length lines]"
    by (simp add: layout_def Let_def lines_def unit_def arr_def)
  have all: "list_all2 (\<lambda>orig l. normalizeForValidation l = normalizeForValidation orig)
       lines (fst (layout input options))"
    unfolding lay by (simp add: list_all2_conv_all_nth normalize_renderLine)
  have len: "length (snd (layout input options)) = length (fst (layout input options))"
    by (simp add: layout_lengths)
  have "preserved ([] @ lines) (fst (insertLoop (fst (layout input options))
          (snd (layout input options)) [] False False False False))"
    by (rule insertLoop_preserved [OF len all]) simp
  then show ?thesis
    by (simp add: formatLines_layout insertSwitchBlankLines_def lines_def)
qed

text \<open>
  C1. A result without an error is the join of lines that preserve the content of the input
  lines: each input line has its output line, equal to it once leading white space is
  stripped and the spacing after \<^verbatim>\<open>@:\<close> and in a switch header is normalised, and the
  remaining output lines are blank or bare \<^verbatim>\<open>@:\<close> separators. A result with an error
  carries the input itself.
\<close>

theorem content_preserved:
  "(case error (formatText input options) of
      None \<Rightarrow> output (formatText input options)
                 = join (snd (splitLines input)) (fst (formatLines input options))
               \<and> preserved (fst (splitLines input)) (fst (formatLines input options))
    | Some e \<Rightarrow> output (formatText input options) = input)"
proof (cases "error (formatText input options)")
  case None
  then show ?thesis
    using formatText_output_ok [OF None] formatLines_preserved [of input options] by simp
next
  case (Some e)
  then show ?thesis
    by (simp add: formatText_def finishFormat_def Let_def split: if_splits)
qed

theorem content_preserved_witness:
  "error (formatText exampleSwitch exampleOptions) = None
   \<and> preserved (fst (splitLines exampleSwitch)) (fst (formatLines exampleSwitch exampleOptions))"
proof -
  have e: "error (formatText exampleSwitch exampleOptions) = None" by code_simp
  show ?thesis
    using content_preserved [of exampleSwitch exampleOptions] e by simp
qed


section \<open>Raw and text blocks\<close>

lemma directiveLine_nonempty: "directiveLine r \<Longrightarrow> trimStart r \<noteq> []"
  by (cases "trimStart r") (auto simp: directiveLine_def)

lemma preserveLoop_char:
  "\<not> (hasDirective \<and> hasPlain) \<Longrightarrow>
   preserveLoop rs hasDirective hasPlain depth =
     ((hasDirective \<or> list_ex directiveLine rs) \<and> (hasPlain \<or> plainOutside depth rs))"
proof (induction rs arbitrary: hasDirective hasPlain depth)
  case Nil
  then show ?case by simp
next
  case (Cons r rs)
  show ?case
  proof (cases "trimStart r = []")
    case True
    then have "\<not> directiveLine r" "\<not> plainLine r" "razorDepthStep depth r = depth"
      using directiveLine_nonempty by (auto simp: plainLine_def razorDepthStep_def)
    with True Cons show ?thesis by simp
  next
    case False
    define hd' where "hd' = (hasDirective \<or> directiveLine r)"
    define hn' where "hn' = (hasPlain \<or> (plainLine r \<and> depth \<le> 0))"
    have unfold: "preserveLoop (r # rs) hasDirective hasPlain depth =
        (if hd' \<and> hn' then True else preserveLoop rs hd' hn' (razorDepthStep depth r))"
      using False
      by (cases "startsWith (trimStart r) ''@''"; cases "startsWith (trimStart r) ''@:''";
          cases "0 < depth"; cases hasPlain)
         (simp_all add: Let_def hd'_def hn'_def directiveLine_def plainLine_def razorDepthStep_def)
    show ?thesis
    proof (cases "hd' \<and> hn'")
      case True
      then show ?thesis
        unfolding unfold using Cons.prems by (auto simp: hd'_def hn'_def)
    next
      case False
      from Cons.IH [OF False] show ?thesis
        unfolding unfold using False by (auto simp: hd'_def hn'_def)
    qed
  qed
qed

lemma shouldPreserve_char:
  "shouldPreserveRawBlockIndent block lineInfos = mixesOutside (blockRests block lineInfos)"
  by (simp add: shouldPreserveRawBlockIndent_def mixesOutside_def blockRests_def preserveLoop_char)


lemma fold_original_desired:
  "k < length (desiredIndents arr) \<Longrightarrow>
   desiredIndents (fold (\<lambda>lineIndex a. a\<lparr>desiredIndents :=
       (desiredIndents a)[lineIndex := Some (leadingWidth (lineInfos ! lineIndex))]\<rparr>) ks arr) ! k
   = (if k \<in> set ks then Some (leadingWidth (lineInfos ! k)) else desiredIndents arr ! k)"
proof (induction ks arbitrary: arr)
  case Nil
  show ?case by simp
next
  case (Cons a ks)
  then show ?case
    by (simp add: Cons.IH nth_list_update)
qed

lemma fold_original_others:
  "indentAfterRazorPrefix (fold (\<lambda>lineIndex a. a\<lparr>desiredIndents := f a lineIndex\<rparr>) ks arr)
     = indentAfterRazorPrefix arr"
  "razorTextContentIndents (fold (\<lambda>lineIndex a. a\<lparr>desiredIndents := f a lineIndex\<rparr>) ks arr)
     = razorTextContentIndents arr"
  "rawLineMeta (fold (\<lambda>lineIndex a. a\<lparr>desiredIndents := f a lineIndex\<rparr>) ks arr) = rawLineMeta arr"
  by (induction ks arbitrary: arr) simp_all

text \<open>
  C7, as amended. A raw block keeps the original leading width of every line when it holds a
  directive line that is not a text-output line and a plain line that is read while no
  brace of directive code is open. Nothing else changes: the widths of the other lines and
  the other three arrays are what they were before the block was handled.
\<close>

theorem mixed_raw_block_keeps_original_widths:
  assumes "tagName block \<in> set RAW_TAGS"
    and "mixesOutside (blockRests block lineInfos)"
    and "k < length (desiredIndents arr)"
  shows "desiredIndents (applyBlock unit lineInfos block arr) ! k
           = (if k \<in> set (blockLines block) then Some (leadingWidth (lineInfos ! k))
              else desiredIndents arr ! k)
         \<and> indentAfterRazorPrefix (applyBlock unit lineInfos block arr) = indentAfterRazorPrefix arr
         \<and> razorTextContentIndents (applyBlock unit lineInfos block arr) = razorTextContentIndents arr
         \<and> rawLineMeta (applyBlock unit lineInfos block arr) = rawLineMeta arr"
proof -
  have "applyBlock unit lineInfos block arr = applySingleTextBlockOriginalIndent block lineInfos arr"
    using assms(1,2) by (simp add: applyBlock_def shouldPreserve_char)
  then show ?thesis
    using assms(3)
    by (simp add: applySingleTextBlockOriginalIndent_def fold_original_desired fold_original_others)
qed

theorem mixed_raw_block_keeps_original_widths_witness:
  "tagName scriptBlock13 \<in> set RAW_TAGS
   \<and> mixesOutside (blockRests scriptBlock13 mixedBlockInfos)
   \<and> textBlocks (docPass 4 mixedBlockDoc mixedBlockInfos) = [scriptBlock13]
   \<and> desiredIndents (applyBlock 4 mixedBlockInfos scriptBlock13
        (arraysOf (docPass 4 mixedBlockDoc mixedBlockInfos))) ! 1 = Some 2"
proof -
  have t: "tagName scriptBlock13 \<in> set RAW_TAGS" by code_simp
  have m: "mixesOutside (blockRests scriptBlock13 mixedBlockInfos)" by code_simp
  have b: "textBlocks (docPass 4 mixedBlockDoc mixedBlockInfos) = [scriptBlock13]" by code_simp
  have k: "(1::nat) < length (desiredIndents (arraysOf (docPass 4 mixedBlockDoc mixedBlockInfos)))"
    by code_simp
  have i: "(1::nat) \<in> set (blockLines scriptBlock13)" by code_simp
  have w: "leadingWidth (mixedBlockInfos ! 1) = 2" by code_simp
  show ?thesis
    using mixed_raw_block_keeps_original_widths [OF t m k, of 4] t m b i w by simp
qed

text \<open>
  C7, as stated, fails on the block of the repository's test
  \<^verbatim>\<open>script block with Razor code block\<close>: it mixes a directive line (the sigil and an
  opening brace) with plain lines, which lie inside the braces of the directive, and it is
  re-indented.
\<close>

theorem mixed_raw_block_counterexample:
  "textBlocks (docPass 4 razorCodeBlockDoc razorCodeBlockInfos) = [scriptBlock13]
   \<and> directiveLine (rest (razorCodeBlockInfos ! 1))
   \<and> plainLine (rest (razorCodeBlockInfos ! 2))
   \<and> mixes (blockRests scriptBlock13 razorCodeBlockInfos)
   \<and> leadingWidth (razorCodeBlockInfos ! 2) = 0
   \<and> desiredIndents (applyBlock 4 razorCodeBlockInfos scriptBlock13
        (arraysOf (docPass 4 razorCodeBlockDoc razorCodeBlockInfos))) ! 2 = Some 4
   \<and> fst (formatLines (join [CHR 0x0A] razorCodeBlockDoc) exampleOptions)
       = [''<script>'', [CHR ''@'', CHR ''{''], ''    var count = 3;'', ''}'', ''</script>'']"
  by code_simp














































section \<open>The validation of the formatter's own output\<close>

lemma trimEnd_Nil_iff: "trimEnd s = [] \<longleftrightarrow> (\<forall>c \<in> set s. isSpace c)"
  by (auto simp: trimEnd_def)

lemma trimEnd_Cons: "\<not> isSpace a \<Longrightarrow> trimEnd (a # s) = a # trimEnd s"
  by (simp add: trimEnd_def dropWhile_append)

lemma isBlankOrPrefix_blankish: "isBlankOrPrefix x \<longleftrightarrow> blankish (dropWhile isSpace x)"
proof (cases "dropWhile isSpace x")
  case Nil
  show ?thesis
    unfolding isBlankOrPrefix_def trim_def trimStart_def Nil by (simp add: trimEnd_def blankish_def)
next
  case (Cons a t)
  then have na: "\<not> isSpace a" using hd_dropWhile [of isSpace x] by auto
  show ?thesis
  proof (cases "a = CHR ''@'' \<and> t \<noteq> [] \<and> hd t = CHR '':''")
    case True
    then obtain u where t: "t = CHR '':'' # u" by (cases t) auto
    from True have a: "a = CHR ''@''" by simp
    have "trim x = CHR ''@'' # CHR '':'' # trimEnd u"
      by (simp add: trim_def trimStart_def Cons t a trimEnd_Cons)
    then show ?thesis
      by (simp add: isBlankOrPrefix_def blankish_def Cons t a trimEnd_Nil_iff)
  next
    case False
    have te: "trim x = a # trimEnd t"
      using na by (simp add: trim_def trimStart_def Cons trimEnd_Cons)
    have "\<not> blankish (a # t)"
      using False by (cases t) (auto simp: blankish_def)
    moreover have "trim x \<noteq> ''@:''"
    proof
      assume "trim x = ''@:''"
      with te have a: "a = CHR ''@''" and tt: "trimEnd t = '':''" by auto
      from tt have "t \<noteq> []" by (auto simp: trimEnd_def)
      then obtain b u where t: "t = b # u" by (cases t) auto
      have "b = CHR '':''"
      proof (cases "isSpace b")
        case True
        have "trimEnd (b # u) = (if \<forall>c \<in> set u. isSpace c then [] else b # trimEnd u)"
          using True by (auto simp: trimEnd_def dropWhile_append)
        with tt t True show ?thesis by (auto split: if_splits simp: isSpace_def)
      next
        case False
        then show ?thesis using tt t by (simp add: trimEnd_Cons)
      qed
      with a t False show False by simp
    qed
    ultimately show ?thesis
      using te by (simp add: isBlankOrPrefix_def Cons)
  qed
qed

lemma normalizeSwitchSpacing_Nil_iff: "normalizeSwitchSpacing n = [] \<longleftrightarrow> n = []"
  by (auto simp: normalizeSwitchSpacing_def switchHeader_def matchSwitchHeader_def split: option.splits)

lemma normalizeSwitchSpacing_prefix_iff: "normalizeSwitchSpacing n = ''@:'' \<longleftrightarrow> n = ''@:''"
  by (auto simp: normalizeSwitchSpacing_def switchHeader_def matchSwitchHeader_def split: option.splits)

lemma normalize_blankish:
  "(normalizeForValidation x = [] \<or> normalizeForValidation x = ''@:'') \<longleftrightarrow> blankish (dropWhile isSpace x)"
proof -
  define n where "n = dropWhile isSpace x"
  show ?thesis
  proof (cases "startsWith n ''@:''")
    case True
    then obtain t where t: "n = CHR ''@'' # CHR '':'' # t"
      using startsWith_prefix_decompose [OF True] by auto
    show ?thesis
      by (simp add: normalizeForValidation_def Let_def n_def [symmetric] t
          normalizeSwitchSpacing_Nil_iff normalizeSwitchSpacing_prefix_iff blankish_def)
  next
    case False
    then show ?thesis
      by (auto simp add: normalizeForValidation_def Let_def n_def [symmetric]
          normalizeSwitchSpacing_Nil_iff normalizeSwitchSpacing_prefix_iff blankish_def)
  qed
qed

lemma blank_by_normalize:
  "normalizeForValidation x = normalizeForValidation y \<Longrightarrow> isBlankOrPrefix x = isBlankOrPrefix y"
  using normalize_blankish [of x] normalize_blankish [of y]
  by (simp add: isBlankOrPrefix_blankish)


lemma labelMarksOk_replicate: "labelMarksOk lineInfos (replicate n None)"
  by (simp add: labelMarksOk_def labelMeta_def)

lemma labelMarksOk_update:
  "labelMarksOk lineInfos metas \<Longrightarrow>
   (labelMeta m \<longrightarrow> caseOrDefaultTest (codePart (trimStart (rest (lineInfos ! idx))))) \<Longrightarrow>
   labelMarksOk lineInfos (metas[idx := m])"
  unfolding labelMarksOk_def
proof (intro allI impI)
  fix i
  assume a: "\<forall>i<length metas. labelMeta (metas ! i) \<longrightarrow>
               caseOrDefaultTest (codePart (trimStart (rest (lineInfos ! i))))"
    and b: "labelMeta m \<longrightarrow> caseOrDefaultTest (codePart (trimStart (rest (lineInfos ! idx))))"
    and c: "i < length (metas[idx := m])" and d: "labelMeta (metas[idx := m] ! i)"
  show "caseOrDefaultTest (codePart (trimStart (rest (lineInfos ! i))))"
  proof (cases "i = idx")
    case True
    with b c d show ?thesis by simp
  next
    case False
    with a c d show ?thesis by simp
  qed
qed

lemma docStateAt_meta: "rawLineMeta (docStateAt unit lines lineInfos k) = replicate (length lines) None"
  by (induction k) (simp_all add: docStateAt_Suc, simp add: docStateAt_def initialDocState_def)

lemma docPass_meta: "rawLineMeta (docPass unit lines lineInfos) = replicate (length lines) None"
  using docPass_arrays [of unit lines lineInfos]
  by (simp add: arraysOf_def docStateAt_meta)

lemma blockStep_marks:
  "labelMarksOk lineInfos (rawLineMeta st) \<Longrightarrow>
   labelMarksOk lineInfos (rawLineMeta (blockStep unit lineInfos isRaw base idx st))"
  by (auto simp: blockStep_def Let_def labelMeta_def split: prod.splits intro!: labelMarksOk_update)

lemma fold_blockStep_marks:
  "labelMarksOk lineInfos (rawLineMeta st) \<Longrightarrow>
   labelMarksOk lineInfos (rawLineMeta (fold (blockStep unit lineInfos isRaw base) ks st))"
  by (induction ks arbitrary: st) (simp_all add: blockStep_marks)

lemma applySingle_meta:
  "rawLineMeta (applySingleTextBlockOriginalIndent block lineInfos arr) = rawLineMeta arr"
  by (simp add: applySingleTextBlockOriginalIndent_def fold_original_others)

lemma applyBlock_marks:
  "labelMarksOk lineInfos (rawLineMeta arr) \<Longrightarrow>
   labelMarksOk lineInfos (rawLineMeta (applyBlock unit lineInfos block arr))"
  by (simp add: applyBlock_def applySingle_meta blockStateAt_def Let_def arraysOf_def
      fold_blockStep_marks initialBlockState_def)

lemma applyIndentation_marks:
  "labelMarksOk lineInfos (rawLineMeta arr) \<Longrightarrow>
   labelMarksOk lineInfos (rawLineMeta (applyTextBlockIndentation blocks lineInfos unit arr))"
  unfolding applyTextBlockIndentation_def
  by (induction blocks arbitrary: arr) (simp_all add: applyBlock_marks)

lemma applyOriginal_meta:
  "rawLineMeta (applyTextBlockOriginalIndent blocks lineInfos arr) = rawLineMeta arr"
  unfolding applyTextBlockOriginalIndent_def
  by (induction blocks arbitrary: arr) (simp_all add: applySingle_meta)

lemma computeArrays_marks:
  "labelMarksOk lineInfos (rawLineMeta (computeArrays unit adjust lines lineInfos))"
proof -
  have "labelMarksOk lineInfos (rawLineMeta (arraysOf (docPass unit lines lineInfos)))"
    by (simp add: arraysOf_def docPass_meta labelMarksOk_replicate)
  then show ?thesis
    by (simp add: computeArrays_def Let_def fillNull_def applyIndentation_marks applyOriginal_meta)
qed

lemma trimStart_rest_analyzeLine:
  "trimStart (rest (analyzeLine line unit)) = dropWhile isSpace line"
  by (simp add: analyzeLine_def matchIndent_def trimStart_def)

lemma keywordTest_nonblank:
  assumes "keywordTest kw c" "kw \<noteq> []" "\<not> isSpace (hd kw)"
  shows "c \<noteq> [] \<and> \<not> isSpace (hd c)"
proof -
  from assms(1) have "startsWith c kw" by (simp add: keywordTest_def)
  with assms(2,3) show ?thesis by (cases c; cases kw) auto
qed

lemma caseOrDefault_nonblank:
  assumes "caseOrDefaultTest c"
  shows "c \<noteq> [] \<and> \<not> isSpace (hd c)"
  using assms keywordTest_nonblank [of "''case''" c] keywordTest_nonblank [of "''default''" c]
  by (auto simp: caseOrDefaultTest_def isSpace_def)

lemma label_line_not_blank:
  assumes "caseOrDefaultTest (codePart (trimStart (rest (analyzeLine line unit))))"
  shows "\<not> isBlankOrPrefix line"
proof -
  define t where "t = dropWhile isSpace line"
  have c: "caseOrDefaultTest (codePart t)"
    using assms by (simp add: trimStart_rest_analyzeLine t_def)
  note nb = caseOrDefault_nonblank [OF c]
  have "\<not> blankish t"
  proof (cases "startsWith t ''@:''")
    case True
    then have "codePart t = dropWhile isSpace (drop 2 t)" by (simp add: codePart_def trimStart_def)
    with nb have "dropWhile isSpace (drop 2 t) \<noteq> []" by simp
    then have "\<not> (\<forall>c \<in> set (drop 2 t). isSpace c)" by simp
    with True show ?thesis by (auto simp: blankish_def)
  next
    case False
    with nb show ?thesis by (auto simp: blankish_def codePart_def split: if_splits)
  qed
  then show ?thesis by (simp add: isBlankOrPrefix_blankish t_def)
qed

lemma insertLoop_fst_acc:
  "length ms = length ls \<Longrightarrow>
   fst (insertLoop ls ms res ins inRaw pb pbl) = res @ fst (insertLoop ls ms [] ins' inRaw pb pbl)"
proof (induction ls arbitrary: ms res ins ins' inRaw pb pbl)
  case Nil
  then show ?case by (simp add: insertLoop_Nil)
next
  case (Cons l ls)
  then obtain m ms' where ms: "ms = m # ms'" and len: "length ms' = length ls"
    by (cases ms) auto
  have acc: "fst (insertLoop ls ms' (r1 @ x) i1 a b c) = r1 @ fst (insertLoop ls ms' x i2 a b c)"
    for r1 x i1 i2 a b c
    using Cons.IH [OF len, of "r1 @ x" i1 a b c False] Cons.IH [OF len, of x i2 a b c False]
    by simp
  show ?case
  proof (cases "rawMeta m")
    case True
    show ?thesis
      unfolding ms
      using acc [where ?r1.0 = res
                   and x = "(if firstInsert m inRaw pb pbl then [separatorFor l] else []) @ [l]"
                   and ?i1.0 = "ins \<or> firstInsert m inRaw pb pbl"
                   and ?i2.0 = "ins' \<or> firstInsert m inRaw pb pbl" and a = True
                   and b = "if \<not> isBlankOrPrefix l then isBreak (the m) else inRaw \<and> pb"
                   and c = "isBlankOrPrefix l"]
      by (simp add: insertLoop_step True del: insertLoop.simps)
  next
    case False
    show ?thesis
      unfolding ms
      using acc [where ?r1.0 = res and x = "[l]" and ?i1.0 = ins and ?i2.0 = ins'
                   and a = False and b = False and c = False]
      by (simp add: insertLoop_step False del: insertLoop.simps)
  qed
qed

lemma insertLoop_snd_acc:
  "length ms = length ls \<Longrightarrow>
   snd (insertLoop ls ms res ins inRaw pb pbl) = (ins \<or> snd (insertLoop ls ms [] False inRaw pb pbl))"
proof (cases ls)
  case Nil
  then show ?thesis by (simp add: insertLoop_Nil)
next
  case (Cons l ls')
  assume "length ms = length ls"
  with Cons obtain m ms' where "ms = m # ms'" "length ms' = length ls'"
    by (cases ms) auto
  then show ?thesis
    using Cons by (simp add: insertLoop_flag_gen del: insertLoop.simps)
qed


lemma firstInsert_label: "firstInsert m inRaw pb pbl \<Longrightarrow> labelMeta m \<and> rawMeta m"
  by (cases m) (auto simp: firstInsert_def labelMeta_def rawMeta_def)

lemma validateLoop_accepts:
  "length ms = length ls \<Longrightarrow>
   list_all2 (\<lambda>orig l. normalizeForValidation l = normalizeForValidation orig) origs ls \<Longrightarrow>
   (\<forall>k < length ls. labelMeta (ms ! k) \<longrightarrow> \<not> isBlankOrPrefix (ls ! k)) \<Longrightarrow>
   (snd (insertLoop ls ms [] False inRaw pb pbl) \<longrightarrow> allow) \<Longrightarrow>
   validateLoop allow origs (fst (insertLoop ls ms [] ins inRaw pb pbl)) oi ch
     = ([], [], oi + length ls, ch)"
proof (induction ls arbitrary: ms origs ins inRaw pb pbl oi)
  case Nil
  then show ?case by (simp add: insertLoop_Nil)
next
  case (Cons l ls)
  from Cons.prems(1) obtain m ms' where ms: "ms = m # ms'" and len: "length ms' = length ls"
    by (cases ms) auto
  from Cons.prems(2) obtain orig origs' where
    origs: "origs = orig # origs'" and
    eq: "normalizeForValidation l = normalizeForValidation orig" and
    all: "list_all2 (\<lambda>orig l. normalizeForValidation l = normalizeForValidation orig) origs' ls"
    by (cases origs) auto
  have blank: "isBlankOrPrefix l = isBlankOrPrefix orig"
    using eq by (rule blank_by_normalize)
  have labels: "\<forall>k < length ls. labelMeta (ms' ! k) \<longrightarrow> \<not> isBlankOrPrefix (ls ! k)"
    using Cons.prems(3) ms by auto
  have label0: "labelMeta m \<longrightarrow> \<not> isBlankOrPrefix l"
    using Cons.prems(3) ms by auto
  define fi where "fi = (rawMeta m \<and> firstInsert m inRaw pb pbl)"
  define a' where "a' = rawMeta m"
  define b' where "b' = (rawMeta m \<and> (if \<not> isBlankOrPrefix l then isBreak (the m) else inRaw \<and> pb))"
  define c' where "c' = (rawMeta m \<and> isBlankOrPrefix l)"
  have step: "insertLoop (l # ls) (m # ms') res i inRaw pb pbl
      = insertLoop ls ms' (res @ (if fi then [separatorFor l] else []) @ [l]) (i \<or> fi) a' b' c'"
    for res i
    by (subst insertLoop_step) (simp add: fi_def a'_def b'_def c'_def del: insertLoop.simps)
  have out: "fst (insertLoop (l # ls) (m # ms') [] ins inRaw pb pbl)
      = (if fi then [separatorFor l] else []) @ l # fst (insertLoop ls ms' [] False a' b' c')"
    unfolding step
    using insertLoop_fst_acc [OF len, of "[] @ (if fi then [separatorFor l] else []) @ [l]" "ins \<or> fi" a' b' c' False]
    by (simp del: insertLoop.simps)
  have flag: "snd (insertLoop (l # ls) (m # ms') [] False inRaw pb pbl)
      = (fi \<or> snd (insertLoop ls ms' [] False a' b' c'))"
    unfolding step
    using insertLoop_snd_acc [OF len, of "[] @ (if fi then [separatorFor l] else []) @ [l]" "False \<or> fi" a' b' c']
    by (simp del: insertLoop.simps)
  from Cons.prems(4) flag ms have fa: "fi \<longrightarrow> allow"
    and ta: "snd (insertLoop ls ms' [] False a' b' c') \<longrightarrow> allow" by auto
  note IH = Cons.IH [OF len all labels ta, of False "oi + 1"]
  have line: "validateLoop allow (orig # origs') (l # fst (insertLoop ls ms' [] False a' b' c')) oi ch
      = ([], [], oi + length (l # ls), ch)"
  proof (cases "allow \<and> isBlankOrPrefix l")
    case True
    with blank have "isBlankOrPrefix orig" by simp
    with True IH show ?thesis by (simp del: insertLoop.simps)
  next
    case False
    have "normalizeForValidation orig = normalizeForValidation l" using eq by simp
    with False IH show ?thesis by (auto simp del: insertLoop.simps)
  qed
  show ?case
  proof (cases fi)
    case False
    then show ?thesis
      unfolding ms origs out using line by (simp del: insertLoop.simps)
  next
    case True
    then have "labelMeta m" using firstInsert_label by (auto simp: fi_def)
    with label0 blank have nb: "\<not> isBlankOrPrefix orig" by simp
    from True fa have al: allow by simp
    show ?thesis
      unfolding ms origs out using True line al nb isBlankOrPrefix_separatorFor [of l]
      by (simp del: insertLoop.simps)
  qed
qed

text \<open>
  The validation accepts every output that \<^verbatim>\<open>formatText\<close> builds: the rendered lines keep
  the content of their input lines, a separator is only put in front of a label line, which
  is not blank, and blank lines stay blank. So \<^verbatim>\<open>formatText\<close> never takes the branch that
  returns the input with an error.
\<close>

lemma formatText_succeeds: "error (formatText input options) = None"
proof -
  define lines where "lines = fst (splitLines input)"
  define unit where "unit = sanitizeIndentSize (indentSize options)"
  define lineInfos where "lineInfos = map (\<lambda>line. analyzeLine line unit) lines"
  define arr where "arr = computeArrays unit (adjustTextBlocks options) lines lineInfos"
  define R where "R = fst (layout input options)"
  define M where "M = snd (layout input options)"
  define allow where "allow = snd (insertLoop R M [] False False False False)"
  have R: "R = map (renderLine lineInfos arr) [0..<length lines]" and M: "M = rawLineMeta arr"
    by (simp_all add: R_def M_def layout_def Let_def lines_def unit_def arr_def lineInfos_def)
  have lenR: "length R = length lines" and lenM: "length M = length R"
    using layout_lengths [of input options] by (simp_all add: R_def M_def lines_def)
  have orig: "map original lineInfos = lines"
    by (simp add: lineInfos_def map_idI)
  have all: "list_all2 (\<lambda>orig l. normalizeForValidation l = normalizeForValidation orig) lines R"
    unfolding R lineInfos_def by (simp add: list_all2_conv_all_nth normalize_renderLine)
  have marks: "labelMarksOk lineInfos M"
    unfolding M arr_def by (rule computeArrays_marks)
  have labels: "\<forall>k < length R. labelMeta (M ! k) \<longrightarrow> \<not> isBlankOrPrefix (R ! k)"
  proof (intro allI impI)
    fix k assume k: "k < length R" and l: "labelMeta (M ! k)"
    from marks k l lenM have "caseOrDefaultTest (codePart (trimStart (rest (lineInfos ! k))))"
      by (simp add: labelMarksOk_def)
    then have "\<not> isBlankOrPrefix (lines ! k)"
      using k lenR label_line_not_blank [of "lines ! k" unit] by (simp add: lineInfos_def)
    moreover have "normalizeForValidation (R ! k) = normalizeForValidation (lines ! k)"
      using all k by (simp add: list_all2_conv_all_nth)
    ultimately show "\<not> isBlankOrPrefix (R ! k)"
      using blank_by_normalize by blast
  qed
  have loop: "validateLoop allow lines (fst (insertLoop R M [] False False False False)) 0 []
      = ([], [], 0 + length R, [])"
    by (rule validateLoop_accepts [OF lenM all labels]) (simp add: allow_def)
  have fl: "formatLines input options = insertLoop R M [] False False False False"
    by (simp add: formatLines_layout insertSwitchBlankLines_def R_def M_def)
  have cnt: "\<not> allow \<longrightarrow> length (fst (insertLoop R M [] False False False False)) = length lines"
    using insertSwitchBlankLines_length [OF lenM] insertSwitchBlankLines_flag [OF lenM] lenR
    by (auto simp: allow_def insertSwitchBlankLines_def)
  have "validateOutput lineInfos (fst (insertLoop R M [] False False False False)) allow = (True, [])"
    using loop cnt lenR by (auto simp: validateOutput_def Let_def orig simp del: insertLoop.simps)
  then show ?thesis
    by (simp add: formatText_def finishFormat_def Let_def fl allow_def
        lines_def [symmetric] unit_def [symmetric] lineInfos_def [symmetric])
qed


section \<open>The log, and lines with a lone carriage return\<close>

text \<open>
  On every input the log is the record of the validation followed by one record for each
  line whose width changed, in the order of the lines.
\<close>

lemma formatText_logs:
  "logs (formatText input options) =
     ''Validation ok: non-leading content unchanged.''
       # changeLogs (map (\<lambda>line. analyzeLine line (sanitizeIndentSize (indentSize options)))
                      (fst (splitLines input)))
           (computeArrays (sanitizeIndentSize (indentSize options)) (adjustTextBlocks options)
              (fst (splitLines input))
              (map (\<lambda>line. analyzeLine line (sanitizeIndentSize (indentSize options)))
                 (fst (splitLines input))))"
  using formatText_succeeds [of input options]
  by (auto simp: formatText_def finishFormat_def Let_def split: if_splits)


lemma changeLogs_entries:
  "x \<in> set (changeLogs lineInfos arr) \<Longrightarrow> \<exists>t. x = ''Line '' @ t"
  by (auto simp: changeLogs_def Let_def split: if_splits)

lemma no_changes_record_unreachable:
  "''No indentation changes detected.'' \<notin> set (logs (formatText input options))"
proof -
  have "\<not> (\<exists>t. ''No indentation changes detected.'' = ''Line '' @ t)" by simp
  then have "''No indentation changes detected.'' \<notin> set (changeLogs lineInfos arr)" for lineInfos arr
    using changeLogs_entries by blast
  then show ?thesis
    by (simp add: formatText_def finishFormat_def Let_def)
qed

text \<open>
  C9. The source pushes the record \<^verbatim>\<open>Validation ok: non-leading content unchanged.\<close> before
  it lists the changed lines, so the log is never empty when it tests
  \<^verbatim>\<open>logs.length === 0\<close>, and the record \<^verbatim>\<open>No indentation changes detected.\<close> is never
  written. For the input \<^verbatim>\<open>a\<close>, where no width changes, the log is the single record of
  the validation.
\<close>

theorem no_changes_record_missing:
  "error (formatText ''a'' exampleOptions) = None
   \<and> logs (formatText ''a'' exampleOptions) = [''Validation ok: non-leading content unchanged.'']
   \<and> ''No indentation changes detected.'' \<notin> set (logs (formatText ''a'' exampleOptions))"
  by code_simp

text \<open>
  Where the leading white space of a line is split off (no line terminator follows it), the
  rendered line is the computed number of spaces followed by content that does not begin
  with white space.
\<close>

lemma makeIndentedLine_spaces: "makeIndentedLine r w = spaces w @ r"
  by (simp add: makeIndentedLine_def spaces_def)

lemma hd_dropWhile_not_space: "dropWhile isSpace s = [] \<or> \<not> isSpace (hd (dropWhile isSpace s))"
  using hd_dropWhile [of isSpace s] by blast

lemma formatRawLineContent_shape:
  assumes "r = [] \<or> \<not> isSpace (hd r)"
  shows "formatRawLineContent r = [] \<or> \<not> isSpace (hd (formatRawLineContent r))"
  using assms by (auto simp: formatRawLineContent_def switchHeader_def split: option.splits)

lemma makeRazorTextIndentedLine_shape:
  assumes "r = [] \<or> \<not> isSpace (hd r)"
  shows "\<exists>content. makeRazorTextIndentedLine r w c = spaces w @ content
           \<and> (content = [] \<or> \<not> isSpace (hd content))"
proof (cases "\<not> startsWith r ''@:'' \<or> (\<exists>x \<in> set (dropWhile isSpace (drop 2 r)). isLineTerminator x)")
  case True
  then have "makeRazorTextIndentedLine r w c = spaces w @ r"
    by (auto simp: makeRazorTextIndentedLine_def Let_def makeIndentedLine_spaces)
  with assms show ?thesis by blast
next
  case False
  have sp: "(if w > 0 then spaces w else []) = spaces w" by (simp add: spaces_def)
  from False have "makeRazorTextIndentedLine r w c =
      spaces w @ (if dropWhile isSpace (drop 2 r) = [] then ''@:''
                  else ''@: '' @ spaces c @ trimStart (dropWhile isSpace (drop 2 r)))"
    by (simp add: makeRazorTextIndentedLine_def Let_def sp)
  then show ?thesis by (auto simp: isSpace_def)
qed

lemma rendered_line_shape:
  assumes "i < length lines" and "matchIndent (lines ! i) \<noteq> None"
  shows "\<exists>content.
     renderLine (map (\<lambda>line. analyzeLine line unit) lines) arr i
       = spaces (case desiredIndents arr ! i of None \<Rightarrow> 0 | Some d \<Rightarrow> d) @ content
     \<and> (content = [] \<or> \<not> isSpace (hd content))"
proof -
  define r where "r = rest (analyzeLine (lines ! i) unit)"
  have r: "r = dropWhile isSpace (lines ! i)"
    using assms(2) by (auto simp: r_def analyzeLine_def matchIndent_def split: if_splits)
  have shape: "r = [] \<or> \<not> isSpace (hd r)"
    unfolding r by (rule hd_dropWhile_not_space)
  show ?thesis
  proof (cases "indentAfterRazorPrefix arr ! i")
    case True
    then show ?thesis
      using assms(1) makeRazorTextIndentedLine_shape [OF shape]
      by (simp add: renderLine_def Let_def r_def)
  next
    case False
    then show ?thesis
      using assms(1) shape formatRawLineContent_shape [OF shape]
      by (auto simp: renderLine_def Let_def r_def makeIndentedLine_spaces)
  qed
qed


text \<open>
  C10. The line \<^verbatim>\<open>TAB a CR\<close> ends in a lone carriage return, so \<^verbatim>\<open>/^(\s*)(.*)$/\<close> does not
  match it and \<^verbatim>\<open>analyzeLine\<close> keeps the whole line, tab included, as \<^verbatim>\<open>rest\<close>. The
  computed width is 0 and the output line still begins with the tab.
\<close>

theorem tab_survives_on_cr_line:
  "rest (analyzeLine tabCrLine 4) = tabCrLine
   \<and> desiredIndents (computeArrays 4 True [tabCrLine] [analyzeLine tabCrLine 4]) ! 0 = Some 0
   \<and> formatText tabCrLine exampleOptions
       = \<lparr>output = tabCrLine, logs = [''Validation ok: non-leading content unchanged.''], error = None\<rparr>"
  by code_simp

text \<open>
  C4. The document \<^verbatim>\<open>{ LF a CR\<close> has no raw block and passes the validation, and its second
  line is kept whole as \<^verbatim>\<open>rest\<close>. Each pass puts the width of level 1 in front of what the
  pass before left there, so the second pass does not return the output of the first.
\<close>

theorem second_pass_differs:
  "formatText crDocument exampleOptions
     = \<lparr>output = [CHR ''{'', CHR 0x0A] @ spaces 4 @ [CHR ''a'', CHR 0x0D],
        logs = [''Validation ok: non-leading content unchanged.'', ''Line 2: 0 -> 4''], error = None\<rparr>
   \<and> textBlocks (docPass 4 (fst (splitLines crDocument))
        (map (\<lambda>l. analyzeLine l 4) (fst (splitLines crDocument)))) = []
   \<and> formatText (output (formatText crDocument exampleOptions)) exampleOptions
     = \<lparr>output = [CHR ''{'', CHR 0x0A] @ spaces 8 @ [CHR ''a'', CHR 0x0D],
        logs = [''Validation ok: non-leading content unchanged.'', ''Line 2: 0 -> 4''], error = None\<rparr>
   \<and> output (formatText (output (formatText crDocument exampleOptions)) exampleOptions)
       \<noteq> output (formatText crDocument exampleOptions)"
  by code_simp

end
